theory Spec2Isabelle
  imports Main "HOL-Library.Word" "HOL-Library.List_Lexorder" "HOL-Library.Char_ord"
begin

section \<open>Values shared by the evaluator and the generator\<close>

text \<open>
  A Go \<^verbatim>\<open>error\<close> value. \<^verbatim>\<open>fmt.Errorf\<close> with the verb \<^verbatim>\<open>%w\<close> wraps another error
  (\<open>WrapError\<close> keeps the format string and the wrapped error); every other error is
  an opaque message. \<open>NumError\<close> is \<^verbatim>\<open>*strconv.NumError\<close> (function, input, cause).
\<close>

datatype error =
    ErrorString string
  | WrapError string error
  | NumError string string error

text \<open>A run-time panic of the Go program: an index beyond the length of a slice, or a read
  through a nil pointer.\<close>

datatype panic = IndexOutOfRange nat nat | NilDereference

text \<open>A call either returns a value or panics.\<close>

datatype 'a outcome = Returns 'a | Panics panic

text \<open>
  Reading \<^verbatim>\<open>xs[i]\<close> from a slice: Go panics with ``index out of range [i] with length n''
  when \<open>i\<close> is not below the length.
\<close>

definition index :: "'a list \<Rightarrow> nat \<Rightarrow> 'a outcome" where
  "index xs i = (if i < length xs then Returns (xs ! i) else Panics (IndexOutOfRange i (length xs)))"

section \<open>The policy evaluator (authorize/evaluator/policy.go)\<close>

subsection \<open>Data\<close>

text \<open>
  The untyped tree (\<^verbatim>\<open>interface{}\<close>) the rule engine binds to a query variable:
  \<^verbatim>\<open>nil\<close>, \<^verbatim>\<open>bool\<close>, \<^verbatim>\<open>json.Number\<close>, \<^verbatim>\<open>string\<close>, \<^verbatim>\<open>[]interface{}\<close> and
  \<^verbatim>\<open>map[string]interface{}\<close>. An object is kept as an association list and read with
  \<open>map_of\<close>.
\<close>

datatype val =
    JNull
  | JBool bool
  | JNumber string
  | JString string
  | JArray "val list"
  | JObject "(string \<times> val) list"

text \<open>\<^verbatim>\<open>rego.Vars\<close> is \<^verbatim>\<open>map[string]interface{}\<close>; a \<^verbatim>\<open>rego.Result\<close> carries its bindings.\<close>

type_synonym Vars = "string \<rightharpoonup> val"

record Result =
  Bindings :: Vars

type_synonym ResultSet = "Result list"

text \<open>
  A prepared query is the engine's business: \<^verbatim>\<open>query.Eval(ctx, rego.EvalInput(input))\<close>
  yields a result set or an error. It is a parameter of the model, a function of the input.
\<close>

type_synonym 'i PreparedEvalQuery = "'i \<Rightarrow> error + ResultSet"

record Denial =
  Status :: int
  Message :: string

text \<open>
  \<^verbatim>\<open>PolicyOutput\<close> has the fields \<^verbatim>\<open>Allow bool\<close> and \<^verbatim>\<open>Deny *Denial\<close>; \<open>None\<close> is the nil
  pointer. The parameter \<open>'d\<close> is what a non-nil \<^verbatim>\<open>*Denial\<close> is: the \<open>Denial\<close> it points to
  where only the value matters (a \<open>Denial\<close> is never written after its creation), an
  address in the model with a heap.
\<close>

record 'd PolicyOutput =
  Allow :: bool
  Deny :: "'d option"

record 'i PolicyEvaluator =
  queries :: "'i PreparedEvalQuery list"

text \<open>What \<^verbatim>\<open>log.Error(ctx).Err(err).Msg(msg)\<close> writes.\<close>

datatype log_event = LogError error string

subsection \<open>Merge\<close>

definition Merge :: "'d PolicyOutput \<Rightarrow> 'd PolicyOutput \<Rightarrow> 'd PolicyOutput" where
  "Merge output other =
     (let merged = \<lparr>Allow = (Allow output \<or> Allow other), Deny = Deny output\<rparr>
      in if Deny other \<noteq> None then merged\<lparr>Deny := Deny other\<rparr> else merged)"

subsection \<open>Reading one result\<close>

definition getAllow :: "Vars \<Rightarrow> bool" where
  "getAllow vars =
     (case vars ''result'' of
        Some (JObject m) \<Rightarrow>
          (case map_of m ''allow'' of
             Some (JBool allow) \<Rightarrow> allow
           | _ \<Rightarrow> False)
      | _ \<Rightarrow> False)"

text \<open>
  \<^verbatim>\<open>fmt.Sprint\<close> and \<^verbatim>\<open>strconv.Atoi\<close> belong to the Go library; \<open>getDeny\<close> takes them as
  the parameters \<open>Sprint\<close> and \<open>Atoi\<close>. The second component of the result is what the
  call logs.
\<close>

definition getDeny ::
  "(val \<Rightarrow> string) \<Rightarrow> (string \<Rightarrow> error + int) \<Rightarrow> Vars \<Rightarrow> Denial option outcome \<times> log_event list"
where
  "getDeny Sprint Atoi vars =
     (case vars ''result'' of
        Some (JObject m) \<Rightarrow>
          (case map_of m ''deny'' of
             Some (JArray pair) \<Rightarrow>
               (case index pair 0 of
                  Panics p \<Rightarrow> (Panics p, [])
                | Returns p0 \<Rightarrow>
                    (case Atoi (Sprint p0) of
                       Inl err \<Rightarrow> (Returns None, [LogError err ''invalid type in deny''])
                     | Inr status \<Rightarrow>
                         (case index pair 1 of
                            Panics p \<Rightarrow> (Panics p, [])
                          | Returns p1 \<Rightarrow>
                              (Returns (Some \<lparr>Status = status, Message = Sprint p1\<rparr>), []))))
           | _ \<Rightarrow> (Returns None, []))
      | _ \<Rightarrow> (Returns None, []))"

definition evaluateQuery ::
  "(val \<Rightarrow> string) \<Rightarrow> (string \<Rightarrow> error + int) \<Rightarrow> 'i \<Rightarrow> 'i PreparedEvalQuery
     \<Rightarrow> (error + Denial PolicyOutput) outcome \<times> log_event list"
where
  "evaluateQuery Sprint Atoi input query =
     (case query input of
        Inl err \<Rightarrow>
          (Returns (Inl (WrapError ''authorize: error evaluating policy.rego: %w'' err)), [])
      | Inr rs \<Rightarrow>
          (if length rs = 0
           then (Returns (Inl (ErrorString
                   ''authorize: unexpected empty result from evaluating policy.rego'')), [])
           else
             (let allow = getAllow (Bindings (rs ! 0))
              in case getDeny Sprint Atoi (Bindings (rs ! 0)) of
                   (Panics p, logged) \<Rightarrow> (Panics p, logged)
                 | (Returns deny, logged) \<Rightarrow>
                     (Returns (Inr \<lparr>Allow = allow, Deny = deny\<rparr>), logged))))"

subsection \<open>Evaluate\<close>

text \<open>
  The loop of \<open>Evaluate\<close> over the prepared queries, from the running output: the first
  query that returns an error (or panics) ends the call.
\<close>

fun Evaluate_loop ::
  "(val \<Rightarrow> string) \<Rightarrow> (string \<Rightarrow> error + int) \<Rightarrow> 'i \<Rightarrow> Denial PolicyOutput
     \<Rightarrow> 'i PreparedEvalQuery list \<Rightarrow> (error + Denial PolicyOutput) outcome \<times> log_event list"
where
  "Evaluate_loop Sprint Atoi input output [] = (Returns (Inr output), [])"
| "Evaluate_loop Sprint Atoi input output (query # rest) =
     (case evaluateQuery Sprint Atoi input query of
        (Panics p, logged) \<Rightarrow> (Panics p, logged)
      | (Returns (Inl err), logged) \<Rightarrow> (Returns (Inl err), logged)
      | (Returns (Inr out), logged) \<Rightarrow>
          (case Evaluate_loop Sprint Atoi input (Merge output out) rest of
             (r, logged') \<Rightarrow> (r, logged @ logged')))"

definition Evaluate ::
  "(val \<Rightarrow> string) \<Rightarrow> (string \<Rightarrow> error + int) \<Rightarrow> 'i PolicyEvaluator \<Rightarrow> 'i
     \<Rightarrow> (error + Denial PolicyOutput) outcome \<times> log_event list"
where
  "Evaluate Sprint Atoi e input =
     Evaluate_loop Sprint Atoi input \<lparr>Allow = False, Deny = None\<rparr> (queries e)"

subsection \<open>NewPolicyEvaluator\<close>

text \<open>
  Of \<^verbatim>\<open>config.Policy\<close> the constructor reads the custom scripts of the sub-policies; the
  other fields stay in the record's extension. \<^verbatim>\<open>ToPPL\<close>, \<^verbatim>\<open>policy.GenerateRegoFromPolicy\<close>
  and the engine's compilation (\<^verbatim>\<open>rego.New(...).PrepareForEval(ctx)\<close>, given the store, the
  module name, the script and the query) are parameters.
\<close>

record SubPolicy =
  Rego :: "string list"

record Policy =
  SubPolicies :: "SubPolicy list"

text \<open>The two nested loops that append every non-empty custom script.\<close>

definition custom_rego :: "string list \<Rightarrow> 'a Policy_scheme \<Rightarrow> string list" where
  "custom_rego scripts configPolicy =
     foldl (\<lambda>scripts sp.
              foldl (\<lambda>scripts src. if src \<noteq> [] then scripts @ [src] else scripts)
                scripts (Rego sp))
       scripts (SubPolicies configPolicy)"

text \<open>The loop that prepares one query per script and stops at the first error.\<close>

fun prepare_queries ::
  "(string \<Rightarrow> error + 'q) \<Rightarrow> 'q list \<Rightarrow> string list \<Rightarrow> error + 'q list"
where
  "prepare_queries PrepareForEval qs [] = Inr qs"
| "prepare_queries PrepareForEval qs (script # scripts) =
     (case PrepareForEval script of
        Inl err \<Rightarrow> Inl err
      | Inr q \<Rightarrow> prepare_queries PrepareForEval (qs @ [q]) scripts)"

definition NewPolicyEvaluator ::
  "('a Policy_scheme \<Rightarrow> 'ppl) \<Rightarrow> ('ppl \<Rightarrow> error + string)
     \<Rightarrow> ('store \<Rightarrow> string \<Rightarrow> string \<Rightarrow> string \<Rightarrow> error + 'i PreparedEvalQuery)
     \<Rightarrow> 'store \<Rightarrow> 'a Policy_scheme \<Rightarrow> error + 'i PolicyEvaluator"
where
  "NewPolicyEvaluator ToPPL GenerateRegoFromPolicy PrepareForEval store configPolicy =
     (let ppl = ToPPL configPolicy
      in case GenerateRegoFromPolicy ppl of
           Inl err \<Rightarrow> Inl err
         | Inr base \<Rightarrow>
             (let scripts = custom_rego [base] configPolicy
              in case prepare_queries
                        (\<lambda>script. PrepareForEval store ''pomerium.policy'' script
                                    ''result = data.pomerium.policy'')
                        [] scripts of
                   Inl err \<Rightarrow> Inl err
                 | Inr qs \<Rightarrow> Inr \<lparr>queries = qs\<rparr>))"

subsection \<open>Merge on a heap of outputs\<close>

text \<open>
  \<open>Merge\<close> takes and returns pointers. To say what it leaves untouched, the outputs live
  in a store addressed by their position, and a \<^verbatim>\<open>*PolicyOutput\<close> is an address or nil;
  \<^verbatim>\<open>&PolicyOutput{...}\<close> allocates at the end of the store. The \<open>Denial\<close> values have a
  store of their own, which \<open>Merge\<close> only points into.
\<close>

type_synonym addr = nat

type_synonym ptr = "addr option"

record heap =
  outputs :: "addr PolicyOutput list"
  denials :: "Denial list"

definition load_output :: "heap \<Rightarrow> ptr \<Rightarrow> addr PolicyOutput option" where
  "load_output h p =
     (case p of
        None \<Rightarrow> None
      | Some a \<Rightarrow> if a < length (outputs h) then Some (outputs h ! a) else None)"

definition new_output :: "heap \<Rightarrow> addr PolicyOutput \<Rightarrow> addr \<times> heap" where
  "new_output h obj = (length (outputs h), h\<lparr>outputs := outputs h @ [obj]\<rparr>)"

definition store_output :: "heap \<Rightarrow> addr \<Rightarrow> addr PolicyOutput \<Rightarrow> heap" where
  "store_output h a obj = h\<lparr>outputs := (outputs h)[a := obj]\<rparr>"

definition Merge_heap :: "heap \<Rightarrow> ptr \<Rightarrow> ptr \<Rightarrow> (ptr \<times> heap) outcome" where
  "Merge_heap h output other =
     (case load_output h output of
        None \<Rightarrow> Panics NilDereference
      | Some out \<Rightarrow>
          (case load_output h other of
             None \<Rightarrow> Panics NilDereference
           | Some oth \<Rightarrow>
               (let (merged, h1) =
                      new_output h \<lparr>Allow = (Allow out \<or> Allow oth), Deny = Deny out\<rparr>
                in case load_output h1 other of
                     None \<Rightarrow> Panics NilDereference
                   | Some oth1 \<Rightarrow>
                       if Deny oth1 \<noteq> None
                       then Returns (Some merged,
                              store_output h1 merged ((outputs h1 ! merged)\<lparr>Deny := Deny oth1\<rparr>))
                       else Returns (Some merged, h1))))"

text \<open>A store with two outputs, the first pointing to a denial.\<close>

definition sample_heap :: heap where
  "sample_heap =
     \<lparr>outputs = [\<lparr>Allow = False, Deny = Some 0\<rparr>, \<lparr>Allow = True, Deny = None\<rparr>],
      denials = [\<lparr>Status = 403, Message = ''blocked''\<rparr>]\<rparr>"

subsection \<open>The Go library functions used by the evaluator\<close>

text \<open>
  \<^verbatim>\<open>strconv.Atoi\<close>, as \<^verbatim>\<open>ParseInt(s, 10, 0)\<close> computes it on a 64-bit platform: an
  optional sign, then \<^verbatim>\<open>ParseUint\<close> reads the digits from the left. A byte that is not a
  decimal digit is a syntax error; a value that leaves the unsigned 64-bit range while
  reading is a range error, raised at that digit; at the end the value must fit the signed
  range. The error is a \<^verbatim>\<open>*NumError\<close> naming \<^verbatim>\<open>Atoi\<close> and the input.
\<close>

definition ErrSyntax :: error where
  "ErrSyntax = ErrorString ''invalid syntax''"

definition ErrRange :: error where
  "ErrRange = ErrorString ''value out of range''"

definition is_digit :: "char \<Rightarrow> bool" where
  "is_digit c = (CHR ''0'' \<le> c \<and> c \<le> CHR ''9'')"

definition digit_value :: "char \<Rightarrow> nat" where
  "digit_value c = of_char c - 48"

fun ParseUint_digits :: "nat \<Rightarrow> string \<Rightarrow> error + nat" where
  "ParseUint_digits n [] = Inr n"
| "ParseUint_digits n (c # cs) =
     (if \<not> is_digit c then Inl ErrSyntax
      else if (2 ^ 64 - 1) div 10 + 1 \<le> n then Inl ErrRange
      else if 2 ^ 64 - 1 < n * 10 + digit_value c then Inl ErrRange
      else ParseUint_digits (n * 10 + digit_value c) cs)"

definition strconv_Atoi :: "string \<Rightarrow> error + int" where
  "strconv_Atoi s =
     (let neg = (case s of c # _ \<Rightarrow> c = CHR ''-'' | [] \<Rightarrow> False);
          ds = (case s of c # r \<Rightarrow> if c = CHR ''-'' \<or> c = CHR ''+'' then r else s | [] \<Rightarrow> [])
      in if ds = [] then Inl (NumError ''Atoi'' s ErrSyntax)
         else
           (case ParseUint_digits 0 ds of
              Inl err \<Rightarrow> Inl (NumError ''Atoi'' s err)
            | Inr un \<Rightarrow>
                if \<not> neg \<and> 2 ^ 63 \<le> un then Inl (NumError ''Atoi'' s ErrRange)
                else if neg \<and> 2 ^ 63 < un then Inl (NumError ''Atoi'' s ErrRange)
                else Inr (if neg then - int un else int un)))"

fun join :: "string \<Rightarrow> string list \<Rightarrow> string" where
  "join sep [] = []"
| "join sep [x] = x"
| "join sep (x # y # ys) = x @ sep @ join sep (y # ys)"

text \<open>
  \<^verbatim>\<open>fmt.Sprint\<close> of one operand (the verb \<^verbatim>\<open>%v\<close>): a string or a \<^verbatim>\<open>json.Number\<close> prints as
  its text, a slice as \<^verbatim>\<open>[a b c]\<close>, a map as \<^verbatim>\<open>map[k:v ...]\<close> in key order.
\<close>

fun fmt_Sprint :: "val \<Rightarrow> string" where
  "fmt_Sprint JNull = ''<nil>''"
| "fmt_Sprint (JBool b) = (if b then ''true'' else ''false'')"
| "fmt_Sprint (JNumber s) = s"
| "fmt_Sprint (JString s) = s"
| "fmt_Sprint (JArray xs) = ''['' @ join '' '' (map fmt_Sprint xs) @ '']''"
| "fmt_Sprint (JObject m) =
     ''map['' @ join '' ''
        (map snd (sort_key fst (map (\<lambda>(k, v). (k, k @ '':'' @ fmt_Sprint v)) m))) @ '']''"

subsection \<open>The merge rule in the words of the specification\<close>

text \<open>
  ``The latest query in evaluation order that produces a denial wins'': of the outputs
  that carry a denial, the last one; none when no output carries one.
\<close>

definition latest_denial :: "'d PolicyOutput list \<Rightarrow> 'd option" where
  "latest_denial outs =
     (case filter (\<lambda>out. Deny out \<noteq> None) outs of [] \<Rightarrow> None | ds \<Rightarrow> Deny (last ds))"

subsection \<open>Sample queries\<close>

text \<open>Results a rule engine can return, as queries over an input that they ignore.\<close>

definition query_forbidden :: "unit PreparedEvalQuery" where
  "query_forbidden input =
     Inr [\<lparr>Bindings = [''result'' \<mapsto> JObject [(''allow'', JBool True),
            (''deny'', JArray [JNumber ''403'', JString ''blocked''])]]\<rparr>]"

definition query_allow :: "unit PreparedEvalQuery" where
  "query_allow input = Inr [\<lparr>Bindings = [''result'' \<mapsto> JObject [(''allow'', JBool True)]]\<rparr>]"

definition query_empty_deny :: "unit PreparedEvalQuery" where
  "query_empty_deny input =
     Inr [\<lparr>Bindings = [''result'' \<mapsto> JObject [(''allow'', JBool True), (''deny'', JArray [])]]\<rparr>]"

definition query_status_only :: "unit PreparedEvalQuery" where
  "query_status_only input =
     Inr [\<lparr>Bindings = [''result'' \<mapsto> JObject [(''deny'', JArray [JNumber ''403''])]]\<rparr>]"

definition query_bad_status :: "unit PreparedEvalQuery" where
  "query_bad_status input =
     Inr [\<lparr>Bindings = [''result'' \<mapsto> JObject [(''allow'', JBool True),
            (''deny'', JArray [JString ''forbidden'', JString ''blocked''])]]\<rparr>]"

definition query_error :: "unit PreparedEvalQuery" where
  "query_error input = Inl (ErrorString ''eval_cancel_error'')"

definition query_no_results :: "unit PreparedEvalQuery" where
  "query_no_results input = Inr []"

subsection \<open>Sample configurations\<close>

text \<open>
  Stand-ins for the policy compiler and the engine: generation rejects a policy without
  sub-policies, compilation rejects the script \<^verbatim>\<open>package broken\<close>.
\<close>

definition sample_ToPPL :: "Policy \<Rightarrow> nat" where
  "sample_ToPPL configPolicy = length (SubPolicies configPolicy)"

definition sample_generate :: "nat \<Rightarrow> error + string" where
  "sample_generate ppl =
     (if ppl = 0 then Inl (ErrorString ''no rules'') else Inr ''package pomerium.policy'')"

definition config_empty :: Policy where
  "config_empty = \<lparr>SubPolicies = []\<rparr>"

definition sample_prepare ::
  "unit \<Rightarrow> string \<Rightarrow> string \<Rightarrow> string \<Rightarrow> error + unit PreparedEvalQuery" where
  "sample_prepare store name script query =
     (if script = ''package broken'' then Inl (ErrorString ''rego_parse_error'')
      else if script = ''package pomerium.policy'' then Inr query_allow
      else Inr query_forbidden)"

definition config_one :: Policy where
  "config_one = \<lparr>SubPolicies = [\<lparr>Rego = [''package broken'']\<rparr>]\<rparr>"

definition config_two :: Policy where
  "config_two = \<lparr>SubPolicies = [\<lparr>Rego = ['''', ''deny = [403, x]'']\<rparr>,
                                \<lparr>Rego = [''package broken'']\<rparr>]\<rparr>"

definition config_good :: Policy where
  "config_good = \<lparr>SubPolicies = [\<lparr>Rego = ['''', ''deny = [403, x]'']\<rparr>, \<lparr>Rego = []\<rparr>]\<rparr>"

section \<open>The generator (package generator)\<close>

subsection \<open>The rule program\<close>

text \<open>
  The parts of the engine's syntax tree (\<^verbatim>\<open>ast\<close>) that the generator builds: terms,
  expressions, rule heads, rules with their location, the package and the module.
  \<^verbatim>\<open>ast.NewExpr(t)\<close> is the expression of one term, \<^verbatim>\<open>ast.Assign.Expr(a, b)\<close> the call of the
  built-in \<^verbatim>\<open>assign\<close> on \<open>a\<close> and \<open>b\<close>.
\<close>

datatype Term =
    VarTerm string
  | StringTerm string
  | BooleanTerm bool
  | NumberTerm string
  | RefTerm "Term list"
  | ArrayTerm "Term list"
  | CallTerm "Term list"

datatype Expr = NewExpr Term | CallExpr "Term list"

definition Assign_Expr :: "Term \<Rightarrow> Term \<Rightarrow> Expr" where
  "Assign_Expr a b = CallExpr [RefTerm [VarTerm ''assign''], a, b]"

record Location =
  Text :: string
  File :: string
  Row :: nat
  Col :: nat

record Head =
  Name :: string
  Args :: "Term list"
  Value :: "Term option"

record Rule =
  Location :: "Location option"
  Default :: bool
  Head :: Head
  Body :: "Expr list"

type_synonym RuleSet = "Rule list"

record Package =
  Path :: "Term list"

record Module =
  Package :: Package
  Rules :: RuleSet

subsection \<open>The generator and its names\<close>

text \<open>
  \<^verbatim>\<open>ids\<close> is a \<^verbatim>\<open>map[string]int\<close>. A Go \<^verbatim>\<open>int\<close> is a machine word (64 bits on the
  usual platforms) whose increment wraps around, so a counter is a word of some length
  \<open>'w\<close>, printed as a signed number. \<open>'c\<close> is the type of a \<^verbatim>\<open>Criterion\<close>.
\<close>

record (overloaded) ('w, 'c) Generator =
  ids :: "string \<rightharpoonup> 'w word"
  criteria :: "string \<rightharpoonup> 'c"

text \<open>
  \<^verbatim>\<open>fmt.Sprintf("%s_%d", name, id)\<close>: the name, an underscore, the number in decimal with
  a minus sign when negative.
\<close>

definition digit :: "nat \<Rightarrow> char" where
  "digit n = ''0123456789'' ! n"

function decimal :: "nat \<Rightarrow> string" where
  "decimal n = (if n < 10 then [digit n] else decimal (n div 10) @ [digit (n mod 10)])"
  by pat_completeness auto
termination
  by (relation "measure (\<lambda>n. n)") auto

definition Itoa :: "int \<Rightarrow> string" where
  "Itoa i = (if i < 0 then CHR ''-'' # decimal (nat (- i)) else decimal (nat i))"

definition Sprintf_s_d :: "string \<Rightarrow> int \<Rightarrow> string" where
  "Sprintf_s_d name n = name @ ''_'' @ Itoa n"

text \<open>Reading a Go map gives the zero value for a key that is not there.\<close>

definition counter :: "('w::len, 'c) Generator \<Rightarrow> string \<Rightarrow> 'w word" where
  "counter g name = (case ids g name of None \<Rightarrow> 0 | Some n \<Rightarrow> n)"

definition NewRule :: "('w::len, 'c) Generator \<Rightarrow> string \<Rightarrow> Rule \<times> ('w, 'c) Generator" where
  "NewRule g name =
     (let id' = counter g name;
          g' = g\<lparr>ids := (ids g)(name \<mapsto> counter g name + 1)\<rparr>
      in (\<lparr>Location = None, Default = False,
           Head = \<lparr>Name = Sprintf_s_d name (sint id'), Args = [], Value = None\<rparr>,
           Body = []\<rparr>, g'))"

text \<open>
  The calls of \<open>NewRule\<close> made on one generator, in order, each on the state the previous
  one left: the rules they return and the final state.
\<close>

fun NewRules :: "('w::len, 'c) Generator \<Rightarrow> string list \<Rightarrow> Rule list \<times> ('w, 'c) Generator" where
  "NewRules g [] = ([], g)"
| "NewRules g (name # names) =
     (case NewRule g name of
        (rule, g') \<Rightarrow> (case NewRules g' names of (rules, g'') \<Rightarrow> (rule # rules, g'')))"

text \<open>
  An \<^verbatim>\<open>Option\<close> updates the generator under construction. \<open>WithCriterion\<close> takes the
  criterion's \<^verbatim>\<open>Names()\<close> as the parameter \<open>Names\<close>.
\<close>

definition WithCriterion ::
  "('c \<Rightarrow> string list) \<Rightarrow> (('w::len, 'c) Generator \<Rightarrow> 'c)
     \<Rightarrow> ('w, 'c) Generator \<Rightarrow> ('w, 'c) Generator"
where
  "WithCriterion Names criterionConstructor g =
     (let c = criterionConstructor g
      in foldl (\<lambda>g name. g\<lparr>criteria := (criteria g)(name \<mapsto> c)\<rparr>) g (Names c))"

definition New :: "(('w::len, 'c) Generator \<Rightarrow> ('w, 'c) Generator) list \<Rightarrow> ('w, 'c) Generator" where
  "New options = foldl (\<lambda>g opt. opt g) \<lparr>ids = Map.empty, criteria = Map.empty\<rparr> options"

definition GetCriterion :: "('w::len, 'c) Generator \<Rightarrow> string \<Rightarrow> 'c option" where
  "GetCriterion g name = criteria g name"


subsection \<open>Generate\<close>

text \<open>
  The four sub-generators (\<^verbatim>\<open>generateAndRule\<close> and its siblings, methods of the generator
  of type \<^verbatim>\<open>conditionalGenerator\<close>) are defined in another file; they are parameters. A
  call may change the rule set it is given and the generator, and returns a sub-rule or
  an error. \<^verbatim>\<open>ast.MustParseRule\<close>, \<^verbatim>\<open>RuleSet.Add\<close> and \<^verbatim>\<open>Rule.String\<close> are parameters
  too. The field \<^verbatim>\<open>Not\<close> of a policy rule is written \<open>Not'\<close>.
\<close>

type_synonym ('w, 'c, 'crit) conditionalGenerator =
  "('w, 'c) Generator \<Rightarrow> RuleSet \<Rightarrow> 'crit list \<Rightarrow> (error + Rule) \<times> RuleSet \<times> ('w, 'c) Generator"

record 'crit PolicyRule =
  Action :: string
  And :: "'crit list"
  Or :: "'crit list"
  Not' :: "'crit list"
  Nor :: "'crit list"

record 'crit parser_Policy =
  Rules :: "'crit PolicyRule list"

record (overloaded) ('w, 'c, 'crit) conditionals =
  generateAndRule :: "('w, 'c, 'crit) conditionalGenerator"
  generateOrRule :: "('w, 'c, 'crit) conditionalGenerator"
  generateNotRule :: "('w, 'c, 'crit) conditionalGenerator"
  generateNorRule :: "('w, 'c, 'crit) conditionalGenerator"

text \<open>The loop over the four fields of one policy rule, building the head rule.\<close>

fun Generate_fields ::
  "('w::len, 'c) Generator \<Rightarrow> RuleSet \<Rightarrow> Rule
     \<Rightarrow> ('crit list \<times> ('w, 'c, 'crit) conditionalGenerator) list
     \<Rightarrow> (error + Rule) \<times> RuleSet \<times> ('w, 'c) Generator"
where
  "Generate_fields g rules rule [] = (Inr rule, rules, g)"
| "Generate_fields g rules rule ((field_criteria, generator) # rest) =
     (if length field_criteria = 0 then Generate_fields g rules rule rest
      else
        (case generator g rules field_criteria of
           (Inl err, rules', g') \<Rightarrow> (Inl err, rules', g')
         | (Inr subRule, rules', g') \<Rightarrow>
             (let rule' =
                    (if length (Body rule) = 0
                     then rule\<lparr>Body := Body rule @
                            [Assign_Expr (VarTerm ''v'') (VarTerm (Name (Head subRule)))]\<rparr>
                     else rule);
                  rule'' = rule'\<lparr>Body := Body rule' @ [NewExpr (VarTerm (Name (Head subRule)))]\<rparr>
              in Generate_fields g' rules' rule'' rest)))"

text \<open>One round of the loop over the policy rules, up to \<^verbatim>\<open>rules.Add(rule)\<close>.\<close>

definition Generate_rule ::
  "('w::len, 'c, 'crit) conditionals \<Rightarrow> ('w, 'c) Generator \<Rightarrow> RuleSet \<Rightarrow> 'crit PolicyRule
     \<Rightarrow> (error + Rule) \<times> RuleSet \<times> ('w, 'c) Generator"
where
  "Generate_rule gens g rules policyRule =
     (let rule = \<lparr>Location = None, Default = False,
                  Head = \<lparr>Name = Action policyRule, Args = [], Value = Some (VarTerm ''v'')\<rparr>,
                  Body = []\<rparr>;
          fields = [(And policyRule, generateAndRule gens),
                    (Or policyRule, generateOrRule gens),
                    (Not' policyRule, generateNotRule gens),
                    (Nor policyRule, generateNorRule gens)]
      in Generate_fields g rules rule fields)"

fun Generate_loop ::
  "(RuleSet \<Rightarrow> Rule \<Rightarrow> RuleSet) \<Rightarrow> ('w::len, 'c, 'crit) conditionals \<Rightarrow> ('w, 'c) Generator
     \<Rightarrow> RuleSet \<Rightarrow> 'crit PolicyRule list \<Rightarrow> (error + RuleSet) \<times> ('w, 'c) Generator"
where
  "Generate_loop Add gens g rules [] = (Inr rules, g)"
| "Generate_loop Add gens g rules (policyRule # policyRules) =
     (case Generate_rule gens g rules policyRule of
        (Inl err, rules', g') \<Rightarrow> (Inl err, g')
      | (Inr rule, rules', g') \<Rightarrow> Generate_loop Add gens g' (Add rules' rule) policyRules)"

text \<open>
  \<^verbatim>\<open>ast.WalkRules\<close> with \<^verbatim>\<open>SetLoc\<close>: every rule of the module, in order, gets the next row
  number. (A rule's \<^verbatim>\<open>else\<close> branches, which no rule built here has, are not modelled.)
\<close>

fun SetLocs :: "(Rule \<Rightarrow> string) \<Rightarrow> nat \<Rightarrow> Rule list \<Rightarrow> Rule list" where
  "SetLocs String i [] = []"
| "SetLocs String i (r # rs) =
     r\<lparr>Location := Some \<lparr>Text = String r, File = [], Row = i, Col = 1\<rparr>\<rparr>
       # SetLocs String (i + 1) rs"

text \<open>\<^verbatim>\<open>sort.SliceStable\<close> by the number of arguments is the stable sort \<open>sort_key\<close>.\<close>

definition Generate ::
  "(string \<Rightarrow> Rule) \<Rightarrow> (RuleSet \<Rightarrow> Rule \<Rightarrow> RuleSet) \<Rightarrow> (Rule \<Rightarrow> string)
     \<Rightarrow> ('w::len, 'c, 'crit) conditionals \<Rightarrow> ('w, 'c) Generator \<Rightarrow> 'crit parser_Policy
     \<Rightarrow> (error + Module) \<times> ('w, 'c) Generator"
where
  "Generate MustParseRule Add String gens g policy =
     (let rules = [];
          rules = Add rules (MustParseRule ''default allow = false'');
          rules = Add rules (MustParseRule ''default deny = false'')
      in case Generate_loop Add gens g rules (parser_Policy.Rules policy) of
           (Inl err, g') \<Rightarrow> (Inl err, g')
         | (Inr rules, g') \<Rightarrow>
             (let module = \<lparr>Package = \<lparr>Path = [StringTerm ''policy.rego'',
                                                StringTerm ''pomerium'',
                                                StringTerm ''policy'']\<rparr>,
                            Module.Rules = rules\<rparr>;
                  module = module\<lparr>Module.Rules :=
                             sort_key (\<lambda>r. length (Args (Head r))) (Module.Rules module)\<rparr>;
                  module = module\<lparr>Module.Rules := SetLocs String 1 (Module.Rules module)\<rparr>
              in (Inr module, g')))"


subsection \<open>The head rule in the words of the specification\<close>

text \<open>
  The body of a head rule, from the names of the sub-rules of its combinators in the
  order processed: the first assigns \<open>v\<close>, and each one, the first included, adds the
  constraint that its sub-rule holds.
\<close>

fun head_body :: "string list \<Rightarrow> Expr list" where
  "head_body [] = []"
| "head_body (first # others) =
     Assign_Expr (VarTerm ''v'') (VarTerm first)
       # map (\<lambda>name. NewExpr (VarTerm name)) (first # others)"

text \<open>
  The sub-rules of the combinators present, in the order given: each sub-generator is
  invoked on the state the previous one left; an empty list invokes nothing.
\<close>

fun sub_rules ::
  "('w::len, 'c) Generator \<Rightarrow> RuleSet
     \<Rightarrow> ('crit list \<times> ('w, 'c, 'crit) conditionalGenerator) list
     \<Rightarrow> (error + Rule list) \<times> RuleSet \<times> ('w, 'c) Generator"
where
  "sub_rules g rules [] = (Inr [], rules, g)"
| "sub_rules g rules ((field_criteria, generator) # rest) =
     (if field_criteria = [] then sub_rules g rules rest
      else
        (case generator g rules field_criteria of
           (Inl err, state) \<Rightarrow> (Inl err, state)
         | (Inr subRule, rules', g') \<Rightarrow>
             (case sub_rules g' rules' rest of
                (Inl err, state) \<Rightarrow> (Inl err, state)
              | (Inr subRules, state) \<Rightarrow> (Inr (subRule # subRules), state))))"

subsection \<open>Sample collaborators of the generator\<close>

text \<open>
  Stand-ins for the engine's parser, rule set and printer, and a sub-generator that
  rejects the criterion \<^verbatim>\<open>unknown\<close> and otherwise registers a one-argument helper and a
  sub-rule, both named by \<open>NewRule\<close>.
\<close>

definition sample_MustParseRule :: "string \<Rightarrow> Rule" where
  "sample_MustParseRule src =
     \<lparr>Location = Some \<lparr>Text = src, File = [], Row = 1, Col = 1\<rparr>, Default = True,
      Head = \<lparr>Name = (if src = ''default allow = false'' then ''allow'' else ''deny''),
               Args = [], Value = Some (BooleanTerm False)\<rparr>,
      Body = [NewExpr (BooleanTerm True)]\<rparr>"

definition sample_Add :: "RuleSet \<Rightarrow> Rule \<Rightarrow> RuleSet" where
  "sample_Add rules rule = (if rule \<in> set rules then rules else rules @ [rule])"

definition sample_String :: "Rule \<Rightarrow> string" where
  "sample_String rule = Name (Head rule)"

definition sample_conditional :: "string \<Rightarrow> (64, unit, string) conditionalGenerator" where
  "sample_conditional kind g dst cs =
     (if ''unknown'' \<in> set cs then (Inl (ErrorString ''unknown criterion''), dst, g)
      else
        (case NewRule g ''helper'' of
           (helper, g') \<Rightarrow>
             (case NewRule g' kind of
                (rule, g'') \<Rightarrow>
                  (Inr rule,
                   dst @ [helper\<lparr>Head := (Head helper)\<lparr>Args := [VarTerm ''x'']\<rparr>\<rparr>, rule],
                   g''))))"

definition sample_conditionals :: "(64, unit, string) conditionals" where
  "sample_conditionals =
     \<lparr>generateAndRule = sample_conditional ''and'', generateOrRule = sample_conditional ''or'',
      generateNotRule = sample_conditional ''not'', generateNorRule = sample_conditional ''nor''\<rparr>"

definition sample_policy :: "string parser_Policy" where
  "sample_policy =
     \<lparr>parser_Policy.Rules = [\<lparr>Action = ''allow'', And = [''domain''], Or = [], Not' = [''blocked''], Nor = []\<rparr>]\<rparr>"

subsection \<open>The sub-generators, modelled from the specification\<close>

text \<open>
  Modelled from the spec: the lowering of the criteria of one list, which each criterion
  does in code that is not among the source files. A criterion is named by its kind and
  looked up in the registry (\<open>GetCriterion\<close>); a kind that is not registered aborts with an
  error. A registered criterion gets one synthetic rule, named by \<open>NewRule\<close> with its kind
  as base, and the rule is registered in the program. Only the naming and the
  registration are modelled; the body of the rule, which each criterion defines for
  itself, is left empty.
\<close>

fun lower_criteria ::
  "('w::len, 'c) Generator \<Rightarrow> RuleSet \<Rightarrow> string list
     \<Rightarrow> (error + Rule list) \<times> RuleSet \<times> ('w, 'c) Generator"
where
  "lower_criteria g dst [] = (Inr [], dst, g)"
| "lower_criteria g dst (name # names) =
     (case GetCriterion g name of
        None \<Rightarrow> (Inl (ErrorString ''unknown criterion''), dst, g)
      | Some c \<Rightarrow>
          (case NewRule g name of
             (rule, g') \<Rightarrow>
               (case lower_criteria g' (dst @ [rule]) names of
                  (Inl err, state) \<Rightarrow> (Inl err, state)
                | (Inr rules, state) \<Rightarrow> (Inr (rule # rules), state))))"

text \<open>
  Modelled from the spec: a sub-generator (\<^verbatim>\<open>generateAndRule\<close> and its siblings, which are
  not among the source files) ``lowers the list of criteria into one synthetic sub-rule
  and registers it (and any further nested helper rules it needs) into the program''. It
  lowers the criteria, then names the sub-rule by \<open>NewRule\<close> with the combinator as base
  and registers it.
\<close>

definition lower_conditional :: "string \<Rightarrow> ('w::len, 'c, string) conditionalGenerator" where
  "lower_conditional base g dst cs =
     (case lower_criteria g dst cs of
        (Inl err, state) \<Rightarrow> (Inl err, state)
      | (Inr rules, dst', g') \<Rightarrow>
          (case NewRule g' base of (rule, g'') \<Rightarrow> (Inr rule, dst' @ [rule], g'')))"

definition modelled_conditionals :: "('w::len, 'c, string) conditionals" where
  "modelled_conditionals =
     \<lparr>generateAndRule = lower_conditional ''and'', generateOrRule = lower_conditional ''or'',
      generateNotRule = lower_conditional ''not'', generateNorRule = lower_conditional ''nor''\<rparr>"

text \<open>
  The bases of the \<open>NewRule\<close> calls that lowering makes, in the order of the calls: for
  every non-empty list its criteria and then its combinator; for a policy rule its four
  lists in the order AND, OR, NOT, NOR; for a policy its rules in order.
\<close>

definition field_bases :: "(string list \<times> string) list \<Rightarrow> string list" where
  "field_bases fs = concat (map (\<lambda>(cs, base). if cs = [] then [] else cs @ [base]) fs)"

definition rule_bases :: "string PolicyRule \<Rightarrow> string list" where
  "rule_bases policyRule =
     field_bases [(And policyRule, ''and''), (Or policyRule, ''or''),
                  (Not' policyRule, ''not''), (Nor policyRule, ''nor'')]"

definition policy_bases :: "string parser_Policy \<Rightarrow> string list" where
  "policy_bases policy = concat (map rule_bases (parser_Policy.Rules policy))"

text \<open>
  A generator that knows the criteria \<^verbatim>\<open>domain\<close> and \<^verbatim>\<open>email\<close>, and a policy that uses
  \<^verbatim>\<open>domain\<close> three times.
\<close>

definition sample_registry :: "(64, unit) Generator" where
  "sample_registry = New [WithCriterion (\<lambda>c. [''domain'', ''email'']) (\<lambda>g. ())]"

definition sample_repeated :: "string parser_Policy" where
  "sample_repeated =
     \<lparr>parser_Policy.Rules =
        [\<lparr>Action = ''allow'', And = [''domain'', ''domain''], Or = [''email''], Not' = [], Nor = []\<rparr>,
         \<lparr>Action = ''deny'', And = [''domain''], Or = [], Not' = [], Nor = []\<rparr>]\<rparr>"

section \<open>Properties of the evaluator\<close>

lemma Merge_Allow: "Allow (Merge running other) = (Allow running \<or> Allow other)"
  by (simp add: Merge_def Let_def)

lemma Merge_Deny:
  "Deny (Merge running other) = (case Deny other of Some d \<Rightarrow> Some d | None \<Rightarrow> Deny running)"
  by (simp add: Merge_def Let_def split: option.split)

lemma foldl_Merge_Allow:
  "Allow (foldl Merge acc outs) = (Allow acc \<or> (\<exists>out\<in>set outs. Allow out))"
  by (induction outs arbitrary: acc) (auto simp: Merge_Allow)

lemma latest_denial_Cons:
  "latest_denial (out # outs) =
     (case latest_denial outs of Some d \<Rightarrow> Some d | None \<Rightarrow> Deny out)"
proof (cases "filter (\<lambda>out. Deny out \<noteq> None) outs")
  case Nil
  then show ?thesis by (simp add: latest_denial_def)
next
  case (Cons d ds)
  then have "last (d # ds) \<in> set (filter (\<lambda>out. Deny out \<noteq> None) outs)"
    by (metis last_in_set list.distinct(1))
  then have "Deny (last (d # ds)) \<noteq> None" by simp
  with Cons show ?thesis by (auto simp: latest_denial_def)
qed

lemma foldl_Merge_Deny:
  "Deny (foldl Merge acc outs) =
     (case latest_denial outs of Some d \<Rightarrow> Some d | None \<Rightarrow> Deny acc)"
proof (induction outs arbitrary: acc)
  case Nil
  show ?case by (simp add: latest_denial_def)
next
  case (Cons out outs)
  show ?case
    by (simp add: Cons.IH latest_denial_Cons Merge_Deny split: option.splits)
qed

lemma Evaluate_loop_Returns_Inr:
  "fst (Evaluate_loop Sprint Atoi input acc qs) = Returns (Inr out) \<Longrightarrow>
     \<exists>outs. list_all2 (\<lambda>q out. fst (evaluateQuery Sprint Atoi input q) = Returns (Inr out)) qs outs
       \<and> out = foldl Merge acc outs"
proof (induction qs arbitrary: acc)
  case Nil
  then show ?case by simp
next
  case (Cons q qs)
  from Cons.prems obtain o1 l1 where
    q: "evaluateQuery Sprint Atoi input q = (Returns (Inr o1), l1)"
    by (auto split: prod.splits outcome.splits sum.splits)
  with Cons.prems have "fst (Evaluate_loop Sprint Atoi input (Merge acc o1) qs) = Returns (Inr out)"
    by (auto split: prod.splits)
  from Cons.IH[OF this] obtain outs where
    "list_all2 (\<lambda>q out. fst (evaluateQuery Sprint Atoi input q) = Returns (Inr out)) qs outs"
    "out = foldl Merge (Merge acc o1) outs" by blast
  with q show ?case by (intro exI[of _ "o1 # outs"]) simp
qed

text \<open>
  C2. Merging two outputs allows when either allows, and takes the other output's denial
  when it has one, the running output's otherwise. An \<open>Evaluate\<close> call that returns an
  output has merged the outputs of all its queries in order: it allows when one of them
  allows, and its denial is that of the latest query that produced one.
\<close>

theorem Merge_latest_denial_wins:
  "Allow (Merge running other) = (Allow running \<or> Allow other)
   \<and> Deny (Merge running other) = (case Deny other of Some d \<Rightarrow> Some d | None \<Rightarrow> Deny running)
   \<and> (fst (Evaluate Sprint Atoi e input) = Returns (Inr out) \<longrightarrow>
        (\<exists>outs. list_all2 (\<lambda>q out. fst (evaluateQuery Sprint Atoi input q) = Returns (Inr out))
                  (queries e) outs
           \<and> Allow out = (\<exists>out'\<in>set outs. Allow out')
           \<and> Deny out = latest_denial outs))"
proof (intro conjI impI)
  show "Allow (Merge running other) = (Allow running \<or> Allow other)"
    by (rule Merge_Allow)
  show "Deny (Merge running other) = (case Deny other of Some d \<Rightarrow> Some d | None \<Rightarrow> Deny running)"
    by (rule Merge_Deny)
next
  assume "fst (Evaluate Sprint Atoi e input) = Returns (Inr out)"
  then have "fst (Evaluate_loop Sprint Atoi input \<lparr>Allow = False, Deny = None\<rparr> (queries e))
      = Returns (Inr out)"
    by (simp add: Evaluate_def)
  from Evaluate_loop_Returns_Inr[OF this] obtain outs where
    outs: "list_all2 (\<lambda>q out. fst (evaluateQuery Sprint Atoi input q) = Returns (Inr out))
             (queries e) outs"
    and out: "out = foldl Merge \<lparr>Allow = False, Deny = None\<rparr> outs"
    by blast
  have "Allow out = (\<exists>out'\<in>set outs. Allow out')"
    by (simp add: out foldl_Merge_Allow)
  moreover have "Deny out = latest_denial outs"
    by (simp add: out foldl_Merge_Deny split: option.splits)
  ultimately show "\<exists>outs. list_all2 (\<lambda>q out. fst (evaluateQuery Sprint Atoi input q) = Returns (Inr out))
                  (queries e) outs
           \<and> Allow out = (\<exists>out'\<in>set outs. Allow out')
           \<and> Deny out = latest_denial outs"
    using outs by blast
qed

theorem Merge_latest_denial_wins_witness:
  "fst (Evaluate fmt_Sprint strconv_Atoi \<lparr>queries = [query_forbidden, query_allow]\<rparr> ())
     = Returns (Inr \<lparr>Allow = True, Deny = Some \<lparr>Status = 403, Message = ''blocked''\<rparr>\<rparr>)
   \<and> (\<exists>outs. list_all2 (\<lambda>q out. fst (evaluateQuery fmt_Sprint strconv_Atoi () q) = Returns (Inr out))
                  [query_forbidden, query_allow] outs
           \<and> latest_denial outs = Some \<lparr>Status = 403, Message = ''blocked''\<rparr>)
   \<and> Deny (Merge \<lparr>Allow = False, Deny = Some \<lparr>Status = 403, Message = ''blocked''\<rparr>\<rparr>
               \<lparr>Allow = True, Deny = None\<rparr>)
       = Some \<lparr>Status = 403, Message = ''blocked''\<rparr>
   \<and> Allow (Merge \<lparr>Allow = False, Deny = Some \<lparr>Status = 403, Message = ''blocked''\<rparr>\<rparr>
               \<lparr>Allow = True, Deny = None\<rparr>)"
proof -
  let ?denial = "\<lparr>Status = 403, Message = ''blocked''\<rparr>"
  have h: "fst (Evaluate fmt_Sprint strconv_Atoi \<lparr>queries = [query_forbidden, query_allow]\<rparr> ())
     = Returns (Inr \<lparr>Allow = True, Deny = Some ?denial\<rparr>)"
    by (simp add: evaluateQuery_def getDeny_def getAllow_def index_def Evaluate_def Merge_def
        strconv_Atoi_def is_digit_def digit_value_def Let_def query_forbidden_def query_allow_def)
  from Merge_latest_denial_wins [of "\<lparr>Allow = False, Deny = Some ?denial\<rparr>"
      "\<lparr>Allow = True, Deny = None\<rparr>" fmt_Sprint strconv_Atoi
      "\<lparr>queries = [query_forbidden, query_allow]\<rparr>" "()"
      "\<lparr>Allow = True, Deny = Some ?denial\<rparr>"] h
  show ?thesis by auto
qed

lemma getAllow_cases:
  "getAllow vars =
     (case vars ''result'' of
        Some (JObject m) \<Rightarrow> map_of m ''allow'' = Some (JBool True)
      | _ \<Rightarrow> False)"
proof (cases "vars ''result''")
  case None
  then show ?thesis by (simp add: getAllow_def)
next
  case (Some v)
  show ?thesis
  proof (cases v)
    case (JObject m)
    show ?thesis
    proof (cases "map_of m ''allow''")
      case None
      with Some JObject show ?thesis by (simp add: getAllow_def)
    next
      case inner: (Some w)
      with Some JObject show ?thesis by (cases w) (simp_all add: getAllow_def)
    qed
  qed (simp_all add: Some getAllow_def)
qed

text \<open>
  C4. The extracted allow value is true exactly when the \<open>result\<close> binding is an object
  whose \<open>allow\<close> field is the boolean true. When \<open>result\<close> is not an object, or \<open>allow\<close> is
  absent or not a boolean, \<open>getAllow\<close> is false; being a total boolean function it raises
  nothing, and \<open>evaluateQuery\<close> puts its value into the output it returns.
\<close>

theorem getAllow_tolerant:
  "(getAllow vars \<longleftrightarrow>
      (\<exists>m. vars ''result'' = Some (JObject m) \<and> map_of m ''allow'' = Some (JBool True)))
   \<and> ((\<forall>m. vars ''result'' \<noteq> Some (JObject m)) \<longrightarrow> \<not> getAllow vars)
   \<and> (vars ''result'' = Some (JObject m) \<and> (\<forall>b. map_of m ''allow'' \<noteq> Some (JBool b))
        \<longrightarrow> \<not> getAllow vars)
   \<and> (fst (evaluateQuery Sprint Atoi input query) = Returns (Inr out) \<longrightarrow>
        (\<exists>r rs. query input = Inr (r # rs) \<and> Allow out = getAllow (Bindings r)))"
proof (intro conjI impI)
  show "getAllow vars \<longleftrightarrow>
      (\<exists>m. vars ''result'' = Some (JObject m) \<and> map_of m ''allow'' = Some (JBool True))"
    by (simp add: getAllow_cases split: option.split val.split)
  show "\<not> getAllow vars" if "\<forall>m. vars ''result'' \<noteq> Some (JObject m)"
    using that by (simp add: getAllow_cases split: option.split val.split)
  show "\<not> getAllow vars"
    if "vars ''result'' = Some (JObject m) \<and> (\<forall>b. map_of m ''allow'' \<noteq> Some (JBool b))"
    using that by (simp add: getAllow_cases)
  show "\<exists>r rs. query input = Inr (r # rs) \<and> Allow out = getAllow (Bindings r)"
    if "fst (evaluateQuery Sprint Atoi input query) = Returns (Inr out)"
  proof (cases "query input")
    case (Inl err)
    with that show ?thesis by (simp add: evaluateQuery_def)
  next
    case (Inr rs)
    with that obtain r rs' where rs: "rs = r # rs'"
      by (cases rs) (auto simp: evaluateQuery_def)
    with that Inr have "Allow out = getAllow (Bindings r)"
      by (auto simp: evaluateQuery_def Let_def split: prod.splits outcome.splits)
    with Inr rs show ?thesis by simp
  qed
qed
theorem getAllow_tolerant_witness:
  "\<not> getAllow [''result'' \<mapsto> JString ''allow'']
   \<and> \<not> getAllow [''result'' \<mapsto> JObject [(''allow'', JString ''true'')]]
   \<and> fst (evaluateQuery fmt_Sprint strconv_Atoi () query_allow)
       = Returns (Inr \<lparr>Allow = True, Deny = None\<rparr>)
   \<and> getAllow [''result'' \<mapsto> JObject [(''allow'', JBool True)]]"
proof -
  let ?out = "\<lparr>Allow = True, Deny = None\<rparr>"
  have h: "fst (evaluateQuery fmt_Sprint strconv_Atoi () query_allow) = Returns (Inr ?out)"
    by (simp add: evaluateQuery_def getDeny_def getAllow_def query_allow_def)
  have a: "\<not> getAllow [''result'' \<mapsto> JString ''allow'']"
    using getAllow_tolerant [of "[''result'' \<mapsto> JString ''allow'']" "[]"
        fmt_Sprint strconv_Atoi "()" query_allow ?out]
    by simp
  have b: "\<not> getAllow [''result'' \<mapsto> JObject [(''allow'', JString ''true'')]]"
    using getAllow_tolerant [of "[''result'' \<mapsto> JObject [(''allow'', JString ''true'')]]"
        "[(''allow'', JString ''true'')]" fmt_Sprint strconv_Atoi "()" query_allow ?out]
    by simp
  have c: "getAllow [''result'' \<mapsto> JObject [(''allow'', JBool True)]]"
    using getAllow_tolerant [of "[''result'' \<mapsto> JObject [(''allow'', JBool True)]]" "[]"
        fmt_Sprint strconv_Atoi "()" query_allow ?out]
    by simp
  from h a b c show ?thesis by simp
qed

lemma getDeny_not_array:
  assumes "\<forall>m pair. \<not> (vars ''result'' = Some (JObject m) \<and> map_of m ''deny'' = Some (JArray pair))"
  shows "getDeny Sprint Atoi vars = (Returns None, [])"
proof (cases "vars ''result''")
  case None
  then show ?thesis by (simp add: getDeny_def)
next
  case (Some v)
  show ?thesis
  proof (cases v)
    case (JObject m)
    show ?thesis
    proof (cases "map_of m ''deny''")
      case None
      with Some JObject show ?thesis by (simp add: getDeny_def)
    next
      case inner: (Some w)
      with Some JObject assms show ?thesis by (cases w) (simp_all add: getDeny_def)
    qed
  qed (simp_all add: Some getDeny_def)
qed

lemma getDeny_array:
  assumes "vars ''result'' = Some (JObject m)" and "map_of m ''deny'' = Some (JArray pair)"
  shows "getDeny Sprint Atoi vars =
     (case pair of
        [] \<Rightarrow> (Panics (IndexOutOfRange 0 0), [])
      | status # rest \<Rightarrow>
          (case Atoi (Sprint status) of
             Inl err \<Rightarrow> (Returns None, [LogError err ''invalid type in deny''])
           | Inr n \<Rightarrow>
               (case rest of
                  [] \<Rightarrow> (Panics (IndexOutOfRange 1 1), [])
                | message # _ \<Rightarrow> (Returns (Some \<lparr>Status = n, Message = Sprint message\<rparr>), []))))"
  using assms by (simp add: getDeny_def index_def split: list.split sum.split)

lemma evaluateQuery_Cons:
  assumes "query input = Inr (r # rs)"
  shows "evaluateQuery Sprint Atoi input query =
     (case getDeny Sprint Atoi (Bindings r) of
        (Panics p, logged) \<Rightarrow> (Panics p, logged)
      | (Returns deny, logged) \<Rightarrow>
          (Returns (Inr \<lparr>Allow = getAllow (Bindings r), Deny = deny\<rparr>), logged))"
  using assms by (simp add: evaluateQuery_def Let_def)

text \<open>
  C1. The claim: a \<open>deny\<close> field that is absent or not a pair, an array of fewer than two
  elements included, yields no denial and no failure. For an absent field and for a value
  that is not an array this is \<open>getDeny_not_array\<close>. For an array of fewer than two
  elements the code reads \<^verbatim>\<open>pair[0]\<close> and \<^verbatim>\<open>pair[1]\<close> without a length check: on an empty
  array \<open>getDeny\<close> panics, and so do \<open>evaluateQuery\<close> and \<open>Evaluate\<close>; on a one-element
  array whose status is an integer it panics at the message.
\<close>

theorem getDeny_short_pair_panics:
  "getDeny Sprint Atoi [''result'' \<mapsto> JObject [(''deny'', JArray [])]]
     = (Panics (IndexOutOfRange 0 0), [])
   \<and> evaluateQuery Sprint Atoi () query_empty_deny = (Panics (IndexOutOfRange 0 0), [])
   \<and> getDeny fmt_Sprint strconv_Atoi [''result'' \<mapsto> JObject [(''deny'', JArray [JNumber ''403''])]]
     = (Panics (IndexOutOfRange 1 1), [])
   \<and> evaluateQuery fmt_Sprint strconv_Atoi () query_status_only
     = (Panics (IndexOutOfRange 1 1), [])
   \<and> Evaluate Sprint Atoi \<lparr>queries = [query_empty_deny]\<rparr> ()
     = (Panics (IndexOutOfRange 0 0), [])"
  by (simp add: Evaluate_def evaluateQuery_def getDeny_def index_def query_empty_deny_def
      query_status_only_def strconv_Atoi_def is_digit_def digit_value_def)

lemma Evaluate_loop_reaches:
  assumes "\<forall>q\<in>set earlier. \<exists>out. fst (evaluateQuery Sprint Atoi input q) = Returns (Inr out)"
    and "fst (evaluateQuery Sprint Atoi input query) = Returns (Inl err)"
  shows "fst (Evaluate_loop Sprint Atoi input running (earlier @ query # later)) = Returns (Inl err)"
  using assms(1)
proof (induction earlier arbitrary: running)
  case Nil
  obtain r logged where q: "evaluateQuery Sprint Atoi input query = (r, logged)"
    by (cases "evaluateQuery Sprint Atoi input query")
  with assms(2) show ?case by simp
next
  case (Cons q earlier)
  then obtain out where "fst (evaluateQuery Sprint Atoi input q) = Returns (Inr out)"
    by auto
  then obtain logged where q: "evaluateQuery Sprint Atoi input q = (Returns (Inr out), logged)"
    by (cases "evaluateQuery Sprint Atoi input q") simp
  from Cons.prems have "\<forall>q\<in>set earlier. \<exists>out. fst (evaluateQuery Sprint Atoi input q) = Returns (Inr out)"
    by simp
  from Cons.IH[OF this, of "Merge running out"] q show ?case
    by (auto split: prod.splits)
qed

text \<open>
  C3. \<open>Evaluate\<close> is fail-stop. When the queries evaluated before some query have returned
  their outputs and that query's execution returns an error or yields no result, the
  \<open>Evaluate\<close> call returns an error and no output: the engine's error wrapped, or the error
  for the empty result. The outputs merged so far are dropped, and the queries after it
  are not run, whatever they would do.
\<close>

theorem Evaluate_fail_stop:
  assumes "queries e = earlier @ query # later"
    and "\<forall>q\<in>set earlier. \<exists>out. fst (evaluateQuery Sprint Atoi input q) = Returns (Inr out)"
    and "(\<exists>err. query input = Inl err) \<or> query input = Inr []"
  shows "(\<exists>err. fst (Evaluate Sprint Atoi e input) = Returns (Inl err))
     \<and> (\<forall>out. fst (Evaluate Sprint Atoi e input) \<noteq> Returns (Inr out))
     \<and> (\<forall>err. query input = Inl err \<longrightarrow>
          fst (Evaluate Sprint Atoi e input)
            = Returns (Inl (WrapError ''authorize: error evaluating policy.rego: %w'' err)))
     \<and> (query input = Inr [] \<longrightarrow>
          fst (Evaluate Sprint Atoi e input)
            = Returns (Inl (ErrorString
                ''authorize: unexpected empty result from evaluating policy.rego'')))"
proof -
  have run: "fst (Evaluate Sprint Atoi e input) = Returns (Inl err)"
    if "fst (evaluateQuery Sprint Atoi input query) = Returns (Inl err)" for err
    using Evaluate_loop_reaches[OF assms(2) that] assms(1) by (simp add: Evaluate_def)
  have wrapped: "fst (Evaluate Sprint Atoi e input)
      = Returns (Inl (WrapError ''authorize: error evaluating policy.rego: %w'' err))"
    if "query input = Inl err" for err
    using that by (intro run) (simp add: evaluateQuery_def)
  have empty: "fst (Evaluate Sprint Atoi e input)
      = Returns (Inl (ErrorString ''authorize: unexpected empty result from evaluating policy.rego''))"
    if "query input = Inr []"
    using that by (intro run) (simp add: evaluateQuery_def)
  from assms(3) wrapped empty
  have "\<exists>err. fst (Evaluate Sprint Atoi e input) = Returns (Inl err)" by auto
  then have "(\<exists>err. fst (Evaluate Sprint Atoi e input) = Returns (Inl err))
     \<and> (\<forall>out. fst (Evaluate Sprint Atoi e input) \<noteq> Returns (Inr out))" by auto
  with wrapped empty show ?thesis by blast
qed

theorem Evaluate_fail_stop_witness:
  "fst (Evaluate fmt_Sprint strconv_Atoi
          \<lparr>queries = [query_forbidden, query_error, query_empty_deny]\<rparr> ())
     = Returns (Inl (WrapError ''authorize: error evaluating policy.rego: %w''
                       (ErrorString ''eval_cancel_error'')))
   \<and> fst (Evaluate fmt_Sprint strconv_Atoi \<lparr>queries = [query_allow, query_no_results]\<rparr> ())
     = Returns (Inl (ErrorString
                ''authorize: unexpected empty result from evaluating policy.rego''))"
proof -
  have q1: "queries \<lparr>queries = [query_forbidden, query_error, query_empty_deny]\<rparr>
      = [query_forbidden] @ query_error # [query_empty_deny]" by simp
  have e1: "\<forall>q\<in>set [query_forbidden].
      \<exists>out. fst (evaluateQuery fmt_Sprint strconv_Atoi () q) = Returns (Inr out)"
    by (simp add: evaluateQuery_def getDeny_def getAllow_def index_def query_forbidden_def
        strconv_Atoi_def is_digit_def digit_value_def)
  have f1: "(\<exists>err. query_error () = Inl err) \<or> query_error () = Inr []"
    by (simp add: query_error_def)
  have q2: "queries \<lparr>queries = [query_allow, query_no_results]\<rparr>
      = [query_allow] @ query_no_results # []" by simp
  have e2: "\<forall>q\<in>set [query_allow].
      \<exists>out. fst (evaluateQuery fmt_Sprint strconv_Atoi () q) = Returns (Inr out)"
    by (simp add: evaluateQuery_def getDeny_def getAllow_def query_allow_def)
  have f2: "(\<exists>err. query_no_results () = Inl err) \<or> query_no_results () = Inr []"
    by (simp add: query_no_results_def)
  have a: "query_error () = Inl (ErrorString ''eval_cancel_error'')"
    by (simp add: query_error_def)
  have b: "query_no_results () = Inr []"
    by (simp add: query_no_results_def)
  from Evaluate_fail_stop [OF q1 e1 f1] a Evaluate_fail_stop [OF q2 e2 f2] b
  show ?thesis by blast
qed

text \<open>
  C5. For a \<open>deny\<close> array whose first element is not an integer after stringification:
  \<open>getDeny\<close> logs the diagnostic and returns no denial; \<open>evaluateQuery\<close> still returns an
  output carrying the allow value, and the loop of \<open>Evaluate\<close> goes on with the remaining
  queries, the running denial unchanged and the allow value merged in. When the status is
  an integer, the message of the pair is stringified as it is.
\<close>

theorem getDeny_status_coercion:
  assumes "vars ''result'' = Some (JObject m)"
    and "map_of m ''deny'' = Some (JArray (status # rest))"
  shows "(Atoi (Sprint status) = Inl err \<longrightarrow>
           getDeny Sprint Atoi vars = (Returns None, [LogError err ''invalid type in deny''])
           \<and> (query input = Inr (r # rs) \<and> Bindings r = vars \<longrightarrow>
                evaluateQuery Sprint Atoi input query =
                  (Returns (Inr \<lparr>Allow = getAllow vars, Deny = None\<rparr>),
                   [LogError err ''invalid type in deny''])
                \<and> Evaluate_loop Sprint Atoi input running (query # rest_queries) =
                    (case Evaluate_loop Sprint Atoi input
                            (Merge running \<lparr>Allow = getAllow vars, Deny = None\<rparr>) rest_queries of
                       (res, logged) \<Rightarrow> (res, LogError err ''invalid type in deny'' # logged))
                \<and> Deny (Merge running \<lparr>Allow = getAllow vars, Deny = None\<rparr>) = Deny running
                \<and> Allow (Merge running \<lparr>Allow = getAllow vars, Deny = None\<rparr>)
                    = (Allow running \<or> getAllow vars)))
       \<and> (Atoi (Sprint status) = Inr n \<and> rest = message # others \<longrightarrow>
            getDeny Sprint Atoi vars
              = (Returns (Some \<lparr>Status = n, Message = Sprint message\<rparr>), []))"
proof (intro conjI impI)
  assume bad: "Atoi (Sprint status) = Inl err"
  with assms show g: "getDeny Sprint Atoi vars = (Returns None, [LogError err ''invalid type in deny''])"
    by (simp add: getDeny_array)
  show "Deny (Merge running \<lparr>Allow = getAllow vars, Deny = None\<rparr>) = Deny running"
    by (simp add: Merge_def)
  show "Allow (Merge running \<lparr>Allow = getAllow vars, Deny = None\<rparr>) = (Allow running \<or> getAllow vars)"
    by (simp add: Merge_def)
  assume q: "query input = Inr (r # rs) \<and> Bindings r = vars"
  with g show e: "evaluateQuery Sprint Atoi input query =
      (Returns (Inr \<lparr>Allow = getAllow vars, Deny = None\<rparr>), [LogError err ''invalid type in deny''])"
    by (simp add: evaluateQuery_Cons)
  show "Evaluate_loop Sprint Atoi input running (query # rest_queries) =
      (case Evaluate_loop Sprint Atoi input
              (Merge running \<lparr>Allow = getAllow vars, Deny = None\<rparr>) rest_queries of
         (res, logged) \<Rightarrow> (res, LogError err ''invalid type in deny'' # logged))"
    by (simp add: e)
next
  assume "Atoi (Sprint status) = Inr n \<and> rest = message # others"
  with assms show "getDeny Sprint Atoi vars
      = (Returns (Some \<lparr>Status = n, Message = Sprint message\<rparr>), [])"
    by (simp add: getDeny_array)
qed


theorem getDeny_status_coercion_witness:
  "evaluateQuery fmt_Sprint strconv_Atoi () query_bad_status =
     (Returns (Inr \<lparr>Allow = True, Deny = None\<rparr>),
      [LogError (NumError ''Atoi'' ''forbidden'' ErrSyntax) ''invalid type in deny''])
   \<and> Evaluate_loop fmt_Sprint strconv_Atoi ()
         \<lparr>Allow = False, Deny = Some \<lparr>Status = 401, Message = ''earlier''\<rparr>\<rparr> [query_bad_status] =
       (Returns (Inr \<lparr>Allow = True, Deny = Some \<lparr>Status = 401, Message = ''earlier''\<rparr>\<rparr>),
        [LogError (NumError ''Atoi'' ''forbidden'' ErrSyntax) ''invalid type in deny''])
   \<and> getDeny fmt_Sprint strconv_Atoi
         [''result'' \<mapsto> JObject [(''allow'', JBool True),
            (''deny'', JArray [JNumber ''403'', JString ''blocked''])]]
       = (Returns (Some \<lparr>Status = 403, Message = ''blocked''\<rparr>), [])"
proof -
  let ?bad = "[(''allow'', JBool True), (''deny'', JArray [JString ''forbidden'', JString ''blocked''])]"
  let ?good = "[(''allow'', JBool True), (''deny'', JArray [JNumber ''403'', JString ''blocked''])]"
  let ?err = "NumError ''Atoi'' ''forbidden'' ErrSyntax"
  let ?running = "\<lparr>Allow = False, Deny = Some \<lparr>Status = 401, Message = ''earlier''\<rparr>\<rparr>"
  have b1: "[''result'' \<mapsto> JObject ?bad] ''result'' = Some (JObject ?bad)" by simp
  have b2: "map_of ?bad ''deny'' = Some (JArray (JString ''forbidden'' # [JString ''blocked'']))"
    by simp
  have b3: "strconv_Atoi (fmt_Sprint (JString ''forbidden'')) = Inl ?err"
    by (simp add: strconv_Atoi_def is_digit_def)
  have b4: "query_bad_status () = Inr (\<lparr>Bindings = [''result'' \<mapsto> JObject ?bad]\<rparr> # [])
      \<and> Bindings \<lparr>Bindings = [''result'' \<mapsto> JObject ?bad]\<rparr> = [''result'' \<mapsto> JObject ?bad]"
    by (simp add: query_bad_status_def)
  have b5: "getAllow [''result'' \<mapsto> JObject ?bad]" by (simp add: getAllow_def)
  have g1: "[''result'' \<mapsto> JObject ?good] ''result'' = Some (JObject ?good)" by simp
  have g2: "map_of ?good ''deny'' = Some (JArray (JNumber ''403'' # [JString ''blocked'']))"
    by simp
  have g3: "strconv_Atoi (fmt_Sprint (JNumber ''403'')) = Inr 403 \<and> [JString ''blocked''] = JString ''blocked'' # []"
    by (simp add: strconv_Atoi_def is_digit_def digit_value_def)
  note bad = getDeny_status_coercion [where Sprint = fmt_Sprint and Atoi = strconv_Atoi
      and err = "?err" and query = query_bad_status and input = "()"
      and r = "\<lparr>Bindings = [''result'' \<mapsto> JObject ?bad]\<rparr>" and rs = "[]"
      and running = "?running" and rest_queries = "[]" and n = 0 and message = JNull
      and others = "[]" and vars = "[''result'' \<mapsto> JObject ?bad]" and m = "?bad"
      and status = "JString ''forbidden''" and rest = "[JString ''blocked'']", OF b1 b2]
  note good = getDeny_status_coercion [where Sprint = fmt_Sprint and Atoi = strconv_Atoi
      and err = "?err" and query = query_forbidden and input = "()"
      and r = "\<lparr>Bindings = [''result'' \<mapsto> JObject ?good]\<rparr>" and rs = "[]"
      and running = "?running" and rest_queries = "[]" and n = 403
      and message = "JString ''blocked''" and others = "[]"
      and vars = "[''result'' \<mapsto> JObject ?good]" and m = "?good"
      and status = "JNumber ''403''" and rest = "[JString ''blocked'']", OF g1 g2]
  from bad b3 b4 b5 have
    "evaluateQuery fmt_Sprint strconv_Atoi () query_bad_status =
       (Returns (Inr \<lparr>Allow = True, Deny = None\<rparr>), [LogError ?err ''invalid type in deny''])"
    and "Evaluate_loop fmt_Sprint strconv_Atoi () ?running [query_bad_status] =
       (Returns (Inr (Merge ?running \<lparr>Allow = True, Deny = None\<rparr>)),
        [LogError ?err ''invalid type in deny''])"
    by simp_all
  moreover from good g3 have "getDeny fmt_Sprint strconv_Atoi [''result'' \<mapsto> JObject ?good]
       = (Returns (Some \<lparr>Status = 403, Message = ''blocked''\<rparr>), [])"
    by simp
  ultimately show ?thesis by (simp add: Merge_def)
qed

lemma load_output_new_old:
  "load_output h p = Some obj \<Longrightarrow> load_output (snd (new_output h x)) p = Some obj"
  by (auto simp: load_output_def new_output_def nth_append split: option.splits if_splits)

lemma load_output_store_other:
  "load_output h p = Some obj \<Longrightarrow> p \<noteq> Some a \<Longrightarrow> load_output (store_output h a x) p = Some obj"
  by (auto simp: load_output_def store_output_def split: option.splits if_splits)

lemma load_output_fresh: "load_output h (Some (fst (new_output h x))) = None"
  by (simp add: load_output_def new_output_def)

text \<open>
  C10. \<open>Merge\<close> on two allocated outputs returns the address of a newly allocated output,
  one that was not in the store before, holding the merged fields; every output that was
  in the store, the receiver and the argument among them, is still there with all its
  fields unchanged, and the store of denials is unchanged. So no merge in \<open>Evaluate\<close>
  changes a per-query output or an earlier running output.
\<close>

theorem Merge_heap_frame:
  assumes "load_output h output = Some out" and "load_output h other = Some oth"
  shows "\<exists>merged h'. Merge_heap h output other = Returns (Some merged, h')
     \<and> load_output h (Some merged) = None
     \<and> (\<forall>p obj. load_output h p = Some obj \<longrightarrow> load_output h' p = Some obj)
     \<and> load_output h' output = Some out
     \<and> load_output h' other = Some oth
     \<and> denials h' = denials h
     \<and> length (outputs h') = Suc (length (outputs h))
     \<and> load_output h' (Some merged) = Some (Merge out oth)"
proof -
  define obj where "obj = \<lparr>Allow = (Allow out \<or> Allow oth), Deny = Deny out\<rparr>"
  define merged where "merged = length (outputs h)"
  define h1 where "h1 = h\<lparr>outputs := outputs h @ [obj]\<rparr>"
  define h' where "h' = (if Deny oth \<noteq> None
      then store_output h1 merged ((outputs h1 ! merged)\<lparr>Deny := Deny oth\<rparr>) else h1)"
  have new: "new_output h obj = (merged, h1)"
    by (simp add: new_output_def merged_def h1_def)
  have other1: "load_output h1 other = Some oth"
    using load_output_new_old[OF assms(2), of obj] new by simp
  have run: "Merge_heap h output other = Returns (Some merged, h')"
    using assms new other1 by (simp add: Merge_heap_def obj_def[symmetric] h'_def)
  have fresh: "load_output h (Some merged) = None"
    by (simp add: load_output_def merged_def)
  have frame: "load_output h' p = Some x" if "load_output h p = Some x" for p x
  proof -
    from that fresh have ne: "p \<noteq> Some merged" by auto
    from that have "load_output h1 p = Some x"
      using load_output_new_old[of h p x obj] new by simp
    with ne show ?thesis by (simp add: h'_def load_output_store_other)
  qed
  have dens: "denials h' = denials h"
    by (simp add: h'_def h1_def store_output_def)
  have len: "length (outputs h') = Suc (length (outputs h))"
    by (simp add: h'_def h1_def store_output_def)
  have val: "load_output h' (Some merged) = Some (Merge out oth)"
    by (simp add: h'_def h1_def store_output_def load_output_def merged_def obj_def Merge_def)
  from run fresh frame dens len val assms show ?thesis by blast
qed

theorem Merge_heap_frame_witness:
  "\<exists>merged h'. Merge_heap sample_heap (Some 0) (Some 1) = Returns (Some merged, h')
     \<and> load_output sample_heap (Some merged) = None
     \<and> load_output h' (Some 0) = Some \<lparr>Allow = False, Deny = Some 0\<rparr>
     \<and> load_output h' (Some 1) = Some \<lparr>Allow = True, Deny = None\<rparr>
     \<and> denials h' = [\<lparr>Status = 403, Message = ''blocked''\<rparr>]
     \<and> load_output h' (Some merged) = Some \<lparr>Allow = True, Deny = Some 0\<rparr>"
proof -
  have a: "load_output sample_heap (Some 0) = Some \<lparr>Allow = False, Deny = Some 0\<rparr>"
    by (simp add: load_output_def sample_heap_def)
  have b: "load_output sample_heap (Some 1) = Some \<lparr>Allow = True, Deny = None\<rparr>"
    by (simp add: load_output_def sample_heap_def)
  have c: "Merge \<lparr>Allow = False, Deny = Some (0::nat)\<rparr> \<lparr>Allow = True, Deny = None\<rparr>
      = \<lparr>Allow = True, Deny = Some 0\<rparr>"
    by (simp add: Merge_def)
  have d: "denials sample_heap = [\<lparr>Status = 403, Message = ''blocked''\<rparr>]"
    by (simp add: sample_heap_def)
  from Merge_heap_frame [OF a b] show ?thesis
    unfolding c d by blast
qed

lemma inner_fold:
  "foldl (\<lambda>scripts src. if src \<noteq> [] then scripts @ [src] else scripts) scripts srcs
     = scripts @ filter (\<lambda>src. src \<noteq> []) srcs"
  by (induction srcs arbitrary: scripts) auto

lemma custom_rego_eq:
  "custom_rego scripts configPolicy =
     scripts @ concat (map (\<lambda>sp. filter (\<lambda>src. src \<noteq> []) (Rego sp)) (SubPolicies configPolicy))"
proof -
  have "foldl (\<lambda>scripts sp.
              foldl (\<lambda>scripts src. if src \<noteq> [] then scripts @ [src] else scripts)
                scripts (Rego sp)) scripts sps
      = scripts @ concat (map (\<lambda>sp. filter (\<lambda>src. src \<noteq> []) (Rego sp)) sps)" for sps :: "SubPolicy list"
    by (induction sps arbitrary: scripts) (simp_all add: inner_fold)
  then show ?thesis by (simp add: custom_rego_def)
qed

lemma prepare_queries_all:
  "list_all2 (\<lambda>script q. prep script = Inr q) scripts qs \<Longrightarrow>
     prepare_queries prep acc scripts = Inr (acc @ qs)"
  by (induction scripts qs arbitrary: acc rule: list_all2_induct) simp_all

lemma prepare_queries_first_failure:
  "list_all2 (\<lambda>script q. prep script = Inr q) pre qs \<Longrightarrow> prep script = Inl err \<Longrightarrow>
     prepare_queries prep acc (pre @ script # post) = Inl err"
  by (induction pre qs arbitrary: acc rule: list_all2_induct) simp_all

text \<open>
  C9 (amended). The units compiled are the generated base program first, then every
  non-empty override fragment in the order supplied. When generation fails, or when the
  compilation of a unit fails after the units before it compiled, construction returns
  no evaluator and returns that error as it is; when every unit compiles, the evaluator
  holds their queries in that order.
\<close>

theorem NewPolicyEvaluator_units:
  fixes PrepareForEval :: "'store \<Rightarrow> string \<Rightarrow> string \<Rightarrow> string \<Rightarrow> error + 'i PreparedEvalQuery"
    and configPolicy :: "'a Policy_scheme" and store :: 'store
  defines "prep \<equiv> \<lambda>script. PrepareForEval store ''pomerium.policy'' script
                       ''result = data.pomerium.policy''"
  defines "units \<equiv> \<lambda>base. base # concat (map (\<lambda>sp. filter (\<lambda>src. src \<noteq> []) (Rego sp))
                                             (SubPolicies configPolicy))"
  shows "(GenerateRegoFromPolicy (ToPPL configPolicy) = Inl err \<longrightarrow>
           NewPolicyEvaluator ToPPL GenerateRegoFromPolicy PrepareForEval store configPolicy = Inl err)
     \<and> (GenerateRegoFromPolicy (ToPPL configPolicy) = Inr base
          \<and> list_all2 (\<lambda>script q. prep script = Inr q) (units base) qs \<longrightarrow>
           NewPolicyEvaluator ToPPL GenerateRegoFromPolicy PrepareForEval store configPolicy
             = Inr \<lparr>queries = qs\<rparr>)
     \<and> (GenerateRegoFromPolicy (ToPPL configPolicy) = Inr base
          \<and> units base = pre @ script # post
          \<and> list_all2 (\<lambda>script q. prep script = Inr q) pre qs
          \<and> prep script = Inl err \<longrightarrow>
           NewPolicyEvaluator ToPPL GenerateRegoFromPolicy PrepareForEval store configPolicy = Inl err)"
proof (intro conjI impI)
  assume "GenerateRegoFromPolicy (ToPPL configPolicy) = Inl err"
  then show "NewPolicyEvaluator ToPPL GenerateRegoFromPolicy PrepareForEval store configPolicy = Inl err"
    by (simp add: NewPolicyEvaluator_def)
next
  assume a: "GenerateRegoFromPolicy (ToPPL configPolicy) = Inr base
      \<and> list_all2 (\<lambda>script q. prep script = Inr q) (units base) qs"
  then have "prepare_queries prep [] (custom_rego [base] configPolicy) = Inr qs"
    using prepare_queries_all[of prep "units base" qs "[]"]
    by (simp add: custom_rego_eq units_def)
  with a show "NewPolicyEvaluator ToPPL GenerateRegoFromPolicy PrepareForEval store configPolicy
      = Inr \<lparr>queries = qs\<rparr>"
    by (simp add: NewPolicyEvaluator_def prep_def)
next
  assume a: "GenerateRegoFromPolicy (ToPPL configPolicy) = Inr base
      \<and> units base = pre @ script # post
      \<and> list_all2 (\<lambda>script q. prep script = Inr q) pre qs
      \<and> prep script = Inl err"
  then have "prepare_queries prep [] (custom_rego [base] configPolicy) = Inl err"
    using prepare_queries_first_failure[of prep pre qs script err "[]" post]
    by (simp add: custom_rego_eq units_def)
  with a show "NewPolicyEvaluator ToPPL GenerateRegoFromPolicy PrepareForEval store configPolicy = Inl err"
    by (simp add: NewPolicyEvaluator_def prep_def)
qed


text \<open>
  C9 as stated fails: the error returned is the compilation error itself, not wrapped, and
  it is the same whether the failing unit is the second or the third.
\<close>

theorem NewPolicyEvaluator_error_not_wrapped:
  "NewPolicyEvaluator sample_ToPPL sample_generate sample_prepare () config_one
     = Inl (ErrorString ''rego_parse_error'')
   \<and> NewPolicyEvaluator sample_ToPPL sample_generate sample_prepare () config_two
     = Inl (ErrorString ''rego_parse_error'')
   \<and> sample_prepare () ''pomerium.policy'' ''package broken'' ''result = data.pomerium.policy''
     = Inl (ErrorString ''rego_parse_error'')"
  by (simp add: NewPolicyEvaluator_def custom_rego_def sample_ToPPL_def sample_generate_def
      sample_prepare_def config_one_def config_two_def)


theorem NewPolicyEvaluator_units_witness:
  "NewPolicyEvaluator sample_ToPPL sample_generate sample_prepare () config_empty
     = Inl (ErrorString ''no rules'')
   \<and> NewPolicyEvaluator sample_ToPPL sample_generate sample_prepare () config_good
     = Inr \<lparr>queries = [query_allow, query_forbidden]\<rparr>
   \<and> NewPolicyEvaluator sample_ToPPL sample_generate sample_prepare () config_one
     = Inl (ErrorString ''rego_parse_error'')"
proof -
  let ?base = "''package pomerium.policy''"
  have e: "sample_generate (sample_ToPPL config_empty) = Inl (ErrorString ''no rules'')"
    by (simp add: sample_generate_def sample_ToPPL_def config_empty_def)
  have g: "sample_generate (sample_ToPPL config_good) = Inr ?base
      \<and> list_all2 (\<lambda>script q. sample_prepare () ''pomerium.policy'' script
                      ''result = data.pomerium.policy'' = Inr q)
           (?base # concat (map (\<lambda>sp. filter (\<lambda>src. src \<noteq> []) (Rego sp))
                              (SubPolicies config_good)))
           [query_allow, query_forbidden]"
    by (simp add: sample_generate_def sample_ToPPL_def sample_prepare_def config_good_def)
  have b: "sample_generate (sample_ToPPL config_one) = Inr ?base
      \<and> ?base # concat (map (\<lambda>sp. filter (\<lambda>src. src \<noteq> []) (Rego sp))
                           (SubPolicies config_one))
          = [?base] @ ''package broken'' # []
      \<and> list_all2 (\<lambda>script q. sample_prepare () ''pomerium.policy'' script
                      ''result = data.pomerium.policy'' = Inr q) [?base] [query_allow]
      \<and> sample_prepare () ''pomerium.policy'' ''package broken''
            ''result = data.pomerium.policy'' = Inl (ErrorString ''rego_parse_error'')"
    by (simp add: sample_generate_def sample_ToPPL_def sample_prepare_def config_one_def)
  note t1 = NewPolicyEvaluator_units [where ToPPL = sample_ToPPL
      and GenerateRegoFromPolicy = sample_generate and PrepareForEval = sample_prepare
      and store = "()" and configPolicy = config_empty and err = "ErrorString ''no rules''"
      and base = "?base" and qs = "[]" and pre = "[]" and script = "[]" and post = "[]"]
  note t2 = NewPolicyEvaluator_units [where ToPPL = sample_ToPPL
      and GenerateRegoFromPolicy = sample_generate and PrepareForEval = sample_prepare
      and store = "()" and configPolicy = config_good and err = "ErrorString ''no rules''"
      and base = "?base" and qs = "[query_allow, query_forbidden]"
      and pre = "[]" and script = "[]" and post = "[]"]
  note t3 = NewPolicyEvaluator_units [where ToPPL = sample_ToPPL
      and GenerateRegoFromPolicy = sample_generate and PrepareForEval = sample_prepare
      and store = "()" and configPolicy = config_one and err = "ErrorString ''rego_parse_error''"
      and base = "?base" and qs = "[query_allow]"
      and pre = "[?base]" and script = "''package broken''" and post = "[]"]
  from t1 e have 1: "NewPolicyEvaluator sample_ToPPL sample_generate sample_prepare () config_empty
     = Inl (ErrorString ''no rules'')" by blast
  from t2 g have 2: "NewPolicyEvaluator sample_ToPPL sample_generate sample_prepare () config_good
     = Inr \<lparr>queries = [query_allow, query_forbidden]\<rparr>" by blast
  from t3 b have 3: "NewPolicyEvaluator sample_ToPPL sample_generate sample_prepare () config_one
     = Inl (ErrorString ''rego_parse_error'')" by blast
  from 1 2 3 show ?thesis by blast
qed

section \<open>Properties of the generator\<close>

lemma digit_inj: "n < 10 \<Longrightarrow> m < 10 \<Longrightarrow> digit n = digit m \<Longrightarrow> n = m"
proof -
  have d: "distinct ''0123456789''" by simp
  assume "n < 10" "m < 10" "digit n = digit m"
  then show ?thesis
    using nth_eq_iff_index_eq[OF d, of n m] by (simp add: digit_def)
qed

lemma digit_in: "n < 10 \<Longrightarrow> digit n \<in> set ''0123456789''"
  unfolding digit_def by (rule nth_mem) simp

lemma decimal_small: "n < 10 \<Longrightarrow> decimal n = [digit n]"
  by simp

lemma decimal_large: "\<not> n < 10 \<Longrightarrow> decimal n = decimal (n div 10) @ [digit (n mod 10)]"
  by simp

declare decimal.simps [simp del]

lemma decimal_not_Nil: "decimal n \<noteq> []"
  by (cases "n < 10") (simp_all add: decimal_small decimal_large)

lemma digit_plain: "n < 10 \<Longrightarrow> CHR ''_'' \<noteq> digit n \<and> CHR ''-'' \<noteq> digit n"
proof -
  assume "n < 10"
  then have "digit n \<in> set ''0123456789''" by (rule digit_in)
  moreover have "CHR ''_'' \<notin> set ''0123456789''" by simp
  moreover have "CHR ''-'' \<notin> set ''0123456789''" by simp
  ultimately show ?thesis by metis
qed

lemma decimal_plain: "CHR ''_'' \<notin> set (decimal n) \<and> CHR ''-'' \<notin> set (decimal n)"
proof (induction n rule: decimal.induct)
  case (1 n)
  show ?case
  proof (cases "n < 10")
    case True
    then show ?thesis using digit_plain[of n] by (simp add: decimal_small)
  next
    case False
    have "n mod 10 < 10" by simp
    from digit_plain[OF this] 1[OF False] False show ?thesis
      by (simp add: decimal_large)
  qed
qed

lemma decimal_inj: "decimal n = decimal m \<Longrightarrow> n = m"
proof (induction n arbitrary: m rule: decimal.induct)
  case (1 n)
  show ?case
  proof (cases "n < 10")
    case n: True
    show ?thesis
    proof (cases "m < 10")
      case True
      with n 1(2) show ?thesis by (simp add: decimal_small digit_inj)
    next
      case False
      with n 1(2) decimal_not_Nil[of "m div 10"] show ?thesis
        by (simp add: decimal_small decimal_large)
    qed
  next
    case n: False
    show ?thesis
    proof (cases "m < 10")
      case True
      with n 1(2) decimal_not_Nil[of "n div 10"] show ?thesis
        by (simp add: decimal_small decimal_large)
    next
      case False
      with n 1(2) have eq: "decimal (n div 10) = decimal (m div 10)"
        and dg: "digit (n mod 10) = digit (m mod 10)"
        by (simp_all add: decimal_large)
      from 1(1)[OF n eq] have "n div 10 = m div 10" .
      moreover from dg have "n mod 10 = m mod 10" by (intro digit_inj) simp_all
      ultimately show ?thesis by (metis div_mult_mod_eq)
    qed
  qed
qed

lemma Itoa_no_underscore: "CHR ''_'' \<notin> set (Itoa i)"
  using decimal_plain[of "nat i"] decimal_plain[of "nat (- i)"] by (simp add: Itoa_def)

lemma Itoa_inj: "Itoa i = Itoa j \<Longrightarrow> i = j"
proof -
  have nd: "decimal n \<noteq> CHR ''-'' # cs" for n cs
    using decimal_plain[of n] by (cases "decimal n") auto
  assume a: "Itoa i = Itoa j"
  show ?thesis
  proof (cases "i < 0")
    case i: True
    show ?thesis
    proof (cases "j < 0")
      case True
      with i a have "decimal (nat (- i)) = decimal (nat (- j))" by (simp add: Itoa_def)
      then have "nat (- i) = nat (- j)" by (rule decimal_inj)
      with i True show ?thesis by simp
    next
      case False
      with i a have "decimal (nat j) = CHR ''-'' # decimal (nat (- i))"
        by (simp add: Itoa_def)
      with nd show ?thesis by blast
    qed
  next
    case i: False
    show ?thesis
    proof (cases "j < 0")
      case True
      with i a have "decimal (nat i) = CHR ''-'' # decimal (nat (- j))"
        by (simp add: Itoa_def)
      with nd show ?thesis by blast
    next
      case False
      with i a have "decimal (nat i) = decimal (nat j)" by (simp add: Itoa_def)
      then have "nat i = nat j" by (rule decimal_inj)
      with i False show ?thesis by simp
    qed
  qed
qed

lemma Sprintf_s_d_inj:
  assumes "Sprintf_s_d name i = Sprintf_s_d name' j"
  shows "name = name' \<and> i = j"
proof -
  let ?P = "\<lambda>c. c \<noteq> CHR ''_''"
  have tw: "takeWhile ?P (rev (Sprintf_s_d nm k)) = rev (Itoa k)" for nm k
  proof -
    have "rev (Sprintf_s_d nm k) = rev (Itoa k) @ CHR ''_'' # rev nm"
      by (simp add: Sprintf_s_d_def)
    moreover have "takeWhile ?P (rev (Itoa k) @ CHR ''_'' # rev nm) = takeWhile ?P (rev (Itoa k))"
      by (rule takeWhile_tail) simp
    moreover have "takeWhile ?P (rev (Itoa k)) = rev (Itoa k)"
      using Itoa_no_underscore[of k] by (simp add: takeWhile_eq_all_conv) blast
    ultimately show ?thesis by simp
  qed
  from assms have "takeWhile ?P (rev (Sprintf_s_d name i)) = takeWhile ?P (rev (Sprintf_s_d name' j))"
    by simp
  then have "Itoa i = Itoa j" by (simp add: tw)
  then have ij: "i = j" by (rule Itoa_inj)
  with assms have "name = name'" by (simp add: Sprintf_s_d_def)
  with ij show ?thesis by simp
qed


lemma counter_NewRule:
  "counter (snd (NewRule g name)) name' = (if name' = name then counter g name + 1 else counter g name')"
  by (simp add: NewRule_def counter_def Let_def)

lemma Name_NewRule:
  "Name (Head (fst (NewRule g name))) = Sprintf_s_d name (sint (counter g name))"
  by (simp add: NewRule_def Let_def)

lemma NewRules_Cons:
  "fst (NewRules g (name # names)) = fst (NewRule g name) # fst (NewRules (snd (NewRule g name)) names)"
  by (simp split: prod.splits)

lemma NewRules_names_window:
  "n \<in> set (map (Name \<circ> Head) (fst (NewRules g names))) \<Longrightarrow>
     \<exists>name k. k < count_list names name \<and> n = Sprintf_s_d name (sint (counter g name + of_nat k))"
proof (induction names arbitrary: g)
  case Nil
  then show ?case by simp
next
  case (Cons a names)
  let ?g' = "snd (NewRule g a)"
  from Cons.prems consider
    (head) "n = Name (Head (fst (NewRule g a)))"
    | (tail) "n \<in> set (map (Name \<circ> Head) (fst (NewRules ?g' names)))"
    by (auto simp: NewRules_Cons simp del: NewRules.simps)
  then show ?case
  proof cases
    case head
    then have "n = Sprintf_s_d a (sint (counter g a + of_nat 0))"
      by (simp add: Name_NewRule)
    moreover have "0 < count_list (a # names) a" by simp
    ultimately show ?thesis by blast
  next
    case tail
    from Cons.IH[OF tail] obtain name k where k: "k < count_list names name"
      and n: "n = Sprintf_s_d name (sint (counter ?g' name + of_nat k))" by blast
    show ?thesis
    proof (cases "name = a")
      case True
      with n have "n = Sprintf_s_d a (sint (counter g a + of_nat (Suc k)))"
        by (simp add: counter_NewRule ac_simps)
      moreover from k True have "Suc k < count_list (a # names) a" by simp
      ultimately show ?thesis by blast
    next
      case False
      with n have "n = Sprintf_s_d name (sint (counter g name + of_nat k))"
        by (simp add: counter_NewRule)
      moreover from k False have "k < count_list (a # names) name" by simp
      ultimately show ?thesis by blast
    qed
  qed
qed

lemma NewRules_distinct:
  fixes g :: "('w::len, 'c) Generator"
  assumes "length names \<le> 2 ^ LENGTH('w)"
  shows "distinct (map (Name \<circ> Head) (fst (NewRules g names)))"
  using assms
proof (induction names arbitrary: g)
  case Nil
  then show ?case by simp
next
  case (Cons a names)
  let ?g' = "snd (NewRule g a)"
  let ?n = "Name (Head (fst (NewRule g a)))"
  from Cons.prems have len: "length names < 2 ^ LENGTH('w)" by simp
  then have "distinct (map (Name \<circ> Head) (fst (NewRules ?g' names)))"
    by (intro Cons.IH) simp
  moreover have "?n \<notin> set (map (Name \<circ> Head) (fst (NewRules ?g' names)))"
  proof
    assume "?n \<in> set (map (Name \<circ> Head) (fst (NewRules ?g' names)))"
    from NewRules_names_window[OF this] obtain name k where k: "k < count_list names name"
      and n: "?n = Sprintf_s_d name (sint (counter ?g' name + of_nat k))" by blast
    from n have "Sprintf_s_d a (sint (counter g a)) = Sprintf_s_d name (sint (counter ?g' name + of_nat k))"
      by (simp add: Name_NewRule)
    then have "a = name" and "sint (counter g a) = sint (counter ?g' name + of_nat k)"
      using Sprintf_s_d_inj by blast+
    then have "counter g a = counter g a + 1 + of_nat k"
      by (simp add: counter_NewRule signed_word_eqI)
    then have "(of_nat (Suc k) :: 'w word) = 0"
      by (simp add: ac_simps)
    moreover have "Suc k < 2 ^ LENGTH('w)"
      using k count_le_length[of names name] len by simp
    ultimately show False
      using of_nat_neq_0[of "Suc k", where 'a = 'w] by simp
  qed
  ultimately show ?case by (simp add: NewRules_Cons comp_def del: NewRules.simps)
qed

lemma Generate_fields_sub_rules:
  "Generate_fields g rules rule fs =
     (case sub_rules g rules fs of
        (Inl err, state) \<Rightarrow> (Inl err, state)
      | (Inr subRules, state) \<Rightarrow>
          (Inr (rule\<lparr>Body := Body rule @
                  (if Body rule = [] then head_body (map (Name \<circ> Head) subRules)
                   else map (\<lambda>name. NewExpr (VarTerm name)) (map (Name \<circ> Head) subRules))\<rparr>),
           state))"
proof (induction fs arbitrary: g rules rule)
  case Nil
  then show ?case by simp
next
  case (Cons f fs)
  obtain cs generator where f: "f = (cs, generator)" by (cases f)
  show ?case
  proof (cases "cs = []")
    case True
    with f Cons.IH show ?thesis by simp
  next
    case False
    obtain res rules' g' where gen: "generator g rules cs = (res, rules', g')"
      by (cases "generator g rules cs") auto
    show ?thesis
    proof (cases res)
      case (Inl err)
      with f False gen show ?thesis by simp
    next
      case (Inr subRule)
      obtain res2 state where sub: "sub_rules g' rules' fs = (res2, state)"
        by (cases "sub_rules g' rules' fs") auto
      show ?thesis
      proof (cases res2)
        case (Inl err)
        with f False gen Inr sub show ?thesis by (simp add: Cons.IH Let_def)
      next
        case inner: (Inr subRules)
        with f False gen Inr sub show ?thesis by (simp add: Cons.IH Let_def)
      qed
    qed
  qed
qed

text \<open>
  C8. For a policy rule, the head rule built is named after the action, has the value
  variable \<open>v\<close>, and its body is \<open>head_body\<close> of the sub-rules of the non-empty combinator
  lists taken in the order AND, OR, NOT, NOR: the first one's sub-rule is assigned to \<open>v\<close>,
  and every one adds the constraint that its sub-rule holds. A sub-generator's error is
  the result. With all four lists empty the body is empty, and neither the rule set nor
  the generator changes.
\<close>

theorem Generate_rule_body:
  "Generate_rule gens g rules policyRule =
     (case sub_rules g rules
             [(And policyRule, generateAndRule gens), (Or policyRule, generateOrRule gens),
              (Not' policyRule, generateNotRule gens), (Nor policyRule, generateNorRule gens)] of
        (Inl err, state) \<Rightarrow> (Inl err, state)
      | (Inr subRules, state) \<Rightarrow>
          (Inr \<lparr>Location = None, Default = False,
                Head = \<lparr>Name = Action policyRule, Args = [], Value = Some (VarTerm ''v'')\<rparr>,
                Body = head_body (map (Name \<circ> Head) subRules)\<rparr>,
           state))
   \<and> (And policyRule = [] \<and> Or policyRule = [] \<and> Not' policyRule = [] \<and> Nor policyRule = []
        \<longrightarrow> Generate_rule gens g rules policyRule =
             (Inr \<lparr>Location = None, Default = False,
                   Head = \<lparr>Name = Action policyRule, Args = [], Value = Some (VarTerm ''v'')\<rparr>,
                   Body = []\<rparr>,
              rules, g))"
proof (intro conjI impI)
  show "Generate_rule gens g rules policyRule =
     (case sub_rules g rules
             [(And policyRule, generateAndRule gens), (Or policyRule, generateOrRule gens),
              (Not' policyRule, generateNotRule gens), (Nor policyRule, generateNorRule gens)] of
        (Inl err, state) \<Rightarrow> (Inl err, state)
      | (Inr subRules, state) \<Rightarrow>
          (Inr \<lparr>Location = None, Default = False,
                Head = \<lparr>Name = Action policyRule, Args = [], Value = Some (VarTerm ''v'')\<rparr>,
                Body = head_body (map (Name \<circ> Head) subRules)\<rparr>,
           state))"
    unfolding Generate_rule_def Let_def
    by (subst Generate_fields_sub_rules) (simp del: sub_rules.simps split: prod.split sum.split)
next
  assume "And policyRule = [] \<and> Or policyRule = [] \<and> Not' policyRule = [] \<and> Nor policyRule = []"
  then show "Generate_rule gens g rules policyRule =
             (Inr \<lparr>Location = None, Default = False,
                   Head = \<lparr>Name = Action policyRule, Args = [], Value = Some (VarTerm ''v'')\<rparr>,
                   Body = []\<rparr>,
              rules, g)"
    by (simp add: Generate_rule_def)
qed


theorem Generate_rule_body_witness:
  "fst (Generate_rule sample_conditionals (New [] :: (64, unit) Generator) []
          \<lparr>Action = ''allow'', And = [''domain''], Or = [], Not' = [''blocked''], Nor = []\<rparr>)
     = Inr \<lparr>Location = None, Default = False,
            Head = \<lparr>Name = ''allow'', Args = [], Value = Some (VarTerm ''v'')\<rparr>,
            Body = [Assign_Expr (VarTerm ''v'') (VarTerm ''and_0''),
                    NewExpr (VarTerm ''and_0''), NewExpr (VarTerm ''not_0'')]\<rparr>
   \<and> Generate_rule sample_conditionals (New [] :: (64, unit) Generator) []
          \<lparr>Action = ''deny'', And = [], Or = [], Not' = [], Nor = []\<rparr>
     = (Inr \<lparr>Location = None, Default = False,
             Head = \<lparr>Name = ''deny'', Args = [], Value = Some (VarTerm ''v'')\<rparr>,
             Body = []\<rparr>, [], New [])"
proof -
  let ?allow = "\<lparr>Action = ''allow'', And = [''domain''], Or = [], Not' = [''blocked''], Nor = []\<rparr>"
  let ?deny = "\<lparr>Action = ''deny'', And = [], Or = [], Not' = [], Nor = ([] :: string list)\<rparr>"
  let ?g = "New [] :: (64, unit) Generator"
  have "\<exists>state. sub_rules ?g []
          [(And ?allow, generateAndRule sample_conditionals),
           (Or ?allow, generateOrRule sample_conditionals),
           (Not' ?allow, generateNotRule sample_conditionals),
           (Nor ?allow, generateNorRule sample_conditionals)]
       = (Inr [\<lparr>Location = None, Default = False,
                 Head = \<lparr>Name = ''and_0'', Args = [], Value = None\<rparr>, Body = []\<rparr>,
               \<lparr>Location = None, Default = False,
                 Head = \<lparr>Name = ''not_0'', Args = [], Value = None\<rparr>, Body = []\<rparr>], state)"
    by (simp add: sample_conditionals_def sample_conditional_def NewRule_def New_def counter_def
        Sprintf_s_d_def Itoa_def digit_def decimal.simps)
  then obtain state where "sub_rules ?g []
          [(And ?allow, generateAndRule sample_conditionals),
           (Or ?allow, generateOrRule sample_conditionals),
           (Not' ?allow, generateNotRule sample_conditionals),
           (Nor ?allow, generateNorRule sample_conditionals)]
       = (Inr [\<lparr>Location = None, Default = False,
                 Head = \<lparr>Name = ''and_0'', Args = [], Value = None\<rparr>, Body = []\<rparr>,
               \<lparr>Location = None, Default = False,
                 Head = \<lparr>Name = ''not_0'', Args = [], Value = None\<rparr>, Body = []\<rparr>], state)"
    by blast
  with Generate_rule_body [of sample_conditionals ?g "[]" ?allow, THEN conjunct1]
  have 1: "fst (Generate_rule sample_conditionals ?g [] ?allow)
     = Inr \<lparr>Location = None, Default = False,
            Head = \<lparr>Name = ''allow'', Args = [], Value = Some (VarTerm ''v'')\<rparr>,
            Body = [Assign_Expr (VarTerm ''v'') (VarTerm ''and_0''),
                    NewExpr (VarTerm ''and_0''), NewExpr (VarTerm ''not_0'')]\<rparr>"
    by (simp del: sub_rules.simps)
  from Generate_rule_body [of sample_conditionals ?g "[]" ?deny, THEN conjunct2]
  have 2: "Generate_rule sample_conditionals ?g [] ?deny
     = (Inr \<lparr>Location = None, Default = False,
             Head = \<lparr>Name = ''deny'', Args = [], Value = Some (VarTerm ''v'')\<rparr>,
             Body = []\<rparr>, [], New [])"
    by (simp del: sub_rules.simps)
  from 1 2 show ?thesis by blast
qed

lemma SetLocs_length: "length (SetLocs String i rs) = length rs"
  by (induction rs arbitrary: i) simp_all

lemma SetLocs_nth:
  "k < length rs \<Longrightarrow>
     SetLocs String i rs ! k =
       (rs ! k)\<lparr>Location := Some \<lparr>Text = String (rs ! k), File = [], Row = i + k, Col = 1\<rparr>\<rparr>"
proof (induction rs arbitrary: i k)
  case Nil
  then show ?case by simp
next
  case (Cons r rs)
  then show ?case by (cases k) simp_all
qed

lemma SetLocs_content:
  "map (\<lambda>r. r\<lparr>Location := None\<rparr>) (SetLocs String i rs) = map (\<lambda>r. r\<lparr>Location := None\<rparr>) rs"
  by (induction rs arbitrary: i) simp_all

lemma filter_arity_content:
  "filter (\<lambda>r. length (Args (Head r)) = n) (map (\<lambda>r. r\<lparr>Location := None\<rparr>) rs)
     = map (\<lambda>r. r\<lparr>Location := None\<rparr>) (filter (\<lambda>r. length (Args (Head r)) = n) rs)"
  by (induction rs) simp_all

lemma Generate_Inr:
  assumes "Generate MustParseRule Add String gens g policy = (Inr module, g')"
  shows "\<exists>rules. Generate_loop Add gens g
            (Add (Add [] (MustParseRule ''default allow = false''))
               (MustParseRule ''default deny = false''))
            (parser_Policy.Rules policy) = (Inr rules, g')
          \<and> Module.Rules module
              = SetLocs String 1 (sort_key (\<lambda>r. length (Args (Head r))) rules)"
  using assms
  by (auto simp: Generate_def Let_def split: prod.splits sum.splits)

text \<open>
  C7. In the module that \<open>Generate\<close> returns, a rule with fewer arguments than another
  stands before it, and for every number of arguments the rules with that many arguments
  are, locations apart, the rules added with that many arguments in the order in which
  they were added.
\<close>

theorem Generate_orders_by_arity:
  assumes "Generate MustParseRule Add String gens g policy = (Inr module, g')"
  shows "(\<forall>i j. i < length (Module.Rules module) \<and> j < length (Module.Rules module)
            \<and> length (Args (Head (Module.Rules module ! i)))
                < length (Args (Head (Module.Rules module ! j)))
          \<longrightarrow> i < j)
     \<and> (\<exists>rules. Generate_loop Add gens g
            (Add (Add [] (MustParseRule ''default allow = false''))
               (MustParseRule ''default deny = false''))
            (parser_Policy.Rules policy) = (Inr rules, g')
          \<and> (\<forall>n. filter (\<lambda>r. length (Args (Head r)) = n)
                     (map (\<lambda>r. r\<lparr>Location := None\<rparr>) (Module.Rules module))
                 = filter (\<lambda>r. length (Args (Head r)) = n)
                     (map (\<lambda>r. r\<lparr>Location := None\<rparr>) rules)))"
proof -
  let ?arity = "\<lambda>r. length (Args (Head r))"
  from Generate_Inr[OF assms] obtain rules where
    loop: "Generate_loop Add gens g
            (Add (Add [] (MustParseRule ''default allow = false''))
               (MustParseRule ''default deny = false''))
            (parser_Policy.Rules policy) = (Inr rules, g')"
    and m: "Module.Rules module = SetLocs String 1 (sort_key ?arity rules)"
    by blast
  let ?sorted = "sort_key ?arity rules"
  have len: "length (Module.Rules module) = length ?sorted"
    by (simp add: m SetLocs_length)
  have ar: "?arity (Module.Rules module ! k) = ?arity (?sorted ! k)" if "k < length ?sorted" for k
    using that by (simp add: m SetLocs_nth)
  have srt: "sorted (map ?arity ?sorted)" by (rule sorted_sort_key)
  have order: "i < j"
    if "i < length (Module.Rules module)" "j < length (Module.Rules module)"
      "?arity (Module.Rules module ! i) < ?arity (Module.Rules module ! j)" for i j
  proof (rule ccontr)
    assume "\<not> i < j"
    then have "j \<le> i" by simp
    with srt that(1) len have "map ?arity ?sorted ! j \<le> map ?arity ?sorted ! i"
      by (intro sorted_nth_mono) simp_all
    with that len ar show False by simp
  qed
  have stable: "filter (\<lambda>r. ?arity r = n) (map (\<lambda>r. r\<lparr>Location := None\<rparr>) (Module.Rules module))
      = filter (\<lambda>r. ?arity r = n) (map (\<lambda>r. r\<lparr>Location := None\<rparr>) rules)" for n
    by (simp only: m SetLocs_content filter_arity_content sort_key_stable)
  from order loop stable show ?thesis by blast
qed


theorem Generate_orders_by_arity_witness:
  "\<exists>module g'.
     Generate sample_MustParseRule sample_Add sample_String sample_conditionals
       (New [] :: (64, unit) Generator) sample_policy = (Inr module, g')
     \<and> map (\<lambda>r. (Name (Head r), length (Args (Head r)))) (Module.Rules module)
         = [(''allow'', 0), (''deny'', 0), (''and_0'', 0), (''not_0'', 0), (''allow'', 0),
            (''helper_0'', 1), (''helper_1'', 1)]
     \<and> (\<forall>i j. i < length (Module.Rules module) \<and> j < length (Module.Rules module)
            \<and> length (Args (Head (Module.Rules module ! i)))
                < length (Args (Head (Module.Rules module ! j)))
          \<longrightarrow> i < j)"
proof -
  have "\<exists>module g'.
     Generate sample_MustParseRule sample_Add sample_String sample_conditionals
       (New [] :: (64, unit) Generator) sample_policy = (Inr module, g')
     \<and> map (\<lambda>r. (Name (Head r), length (Args (Head r)))) (Module.Rules module)
         = [(''allow'', 0), (''deny'', 0), (''and_0'', 0), (''not_0'', 0), (''allow'', 0),
            (''helper_0'', 1), (''helper_1'', 1)]"
    by (simp add: Generate_def sample_MustParseRule_def sample_Add_def sample_String_def
        sample_conditionals_def sample_conditional_def sample_policy_def Generate_rule_def
        NewRule_def New_def counter_def Sprintf_s_d_def Itoa_def digit_def decimal.simps
        Assign_Expr_def Let_def)
  then obtain module g' where
    run: "Generate sample_MustParseRule sample_Add sample_String sample_conditionals
       (New [] :: (64, unit) Generator) sample_policy = (Inr module, g')"
    and names: "map (\<lambda>r. (Name (Head r), length (Args (Head r)))) (Module.Rules module)
         = [(''allow'', 0), (''deny'', 0), (''and_0'', 0), (''not_0'', 0), (''allow'', 0),
            (''helper_0'', 1), (''helper_1'', 1)]"
    by (elim exE conjE)
  from Generate_orders_by_arity [OF run] have order:
    "\<forall>i j. i < length (Module.Rules module) \<and> j < length (Module.Rules module)
            \<and> length (Args (Head (Module.Rules module ! i)))
                < length (Args (Head (Module.Rules module ! j)))
          \<longrightarrow> i < j"
    by (rule conjunct1)
  show ?thesis
    by (intro exI [of _ module] exI [of _ g'] conjI run names order)
qed

lemma NewRules_Cons_snd:
  "snd (NewRules g (name # names)) = snd (NewRules (snd (NewRule g name)) names)"
  by (simp split: prod.splits)

lemma NewRules_append:
  "NewRules g (xs @ ys) =
     (fst (NewRules g xs) @ fst (NewRules (snd (NewRules g xs)) ys),
      snd (NewRules (snd (NewRules g xs)) ys))"
  by (induction xs arbitrary: g)
    (simp_all add: prod_eq_iff NewRules_Cons NewRules_Cons_snd del: NewRules.simps(2))

lemma lower_criteria_NewRules:
  "lower_criteria g dst cs = (Inr rs, dst', g') \<Longrightarrow>
     rs = fst (NewRules g cs) \<and> dst' = dst @ fst (NewRules g cs) \<and> g' = snd (NewRules g cs)"
proof (induction cs arbitrary: g dst rs dst' g')
  case Nil
  then show ?case by simp
next
  case (Cons name names)
  obtain rule g1 where n: "NewRule g name = (rule, g1)" by (cases "NewRule g name")
  obtain res st where l: "lower_criteria g1 (dst @ [rule]) names = (res, st)"
    by (cases "lower_criteria g1 (dst @ [rule]) names")
  from Cons.prems n l obtain rs' where res: "res = Inr rs'" and rs: "rs = rule # rs'"
    and st: "st = (dst', g')"
    by (auto split: option.splits sum.splits)
  from Cons.IH[of g1 "dst @ [rule]" rs' dst' g'] l res st
  have "rs' = fst (NewRules g1 names)" "dst' = (dst @ [rule]) @ fst (NewRules g1 names)"
    "g' = snd (NewRules g1 names)" by simp_all
  with n rs show ?case
    by (simp add: NewRules_Cons NewRules_Cons_snd del: NewRules.simps(2))
qed

lemma lower_conditional_NewRules:
  assumes "lower_conditional base g dst cs = (Inr sub, dst', g')"
  shows "dst' = dst @ fst (NewRules g (cs @ [base])) \<and> g' = snd (NewRules g (cs @ [base]))"
proof -
  obtain res dst1 g1 where l: "lower_criteria g dst cs = (res, dst1, g1)"
    by (cases "lower_criteria g dst cs")
  with assms obtain rs where res: "res = Inr rs"
    by (cases res) (simp_all add: lower_conditional_def)
  from lower_criteria_NewRules[of g dst cs rs dst1 g1] l res
  have d: "dst1 = dst @ fst (NewRules g cs)" and g1: "g1 = snd (NewRules g cs)" by simp_all
  obtain rule g2 where n: "NewRule g1 base = (rule, g2)" by (cases "NewRule g1 base")
  with assms l res have "dst' = dst1 @ [rule]" "g' = g2"
    by (auto simp: lower_conditional_def)
  with d g1 n show ?thesis
    by (simp add: NewRules_append NewRules_Cons NewRules_Cons_snd del: NewRules.simps(2))
qed

lemma Generate_fields_NewRules:
  "Generate_fields g dst rule (map (\<lambda>(cs, base). (cs, lower_conditional base)) fs)
       = (Inr rule', dst', g') \<Longrightarrow>
     dst' = dst @ fst (NewRules g (field_bases fs)) \<and> g' = snd (NewRules g (field_bases fs))"
proof (induction fs arbitrary: g dst rule)
  case Nil
  then show ?case by (simp add: field_bases_def)
next
  case (Cons f fs)
  obtain cs base where f: "f = (cs, base)" by (cases f)
  show ?case
  proof (cases "cs = []")
    case True
    with Cons f show ?thesis by (simp add: field_bases_def)
  next
    case False
    obtain res dst1 g1 where l: "lower_conditional base g dst cs = (res, dst1, g1)"
      by (cases "lower_conditional base g dst cs")
    with Cons.prems f False obtain sub where res: "res = Inr sub"
      by (cases res) simp_all
    from lower_conditional_NewRules[of base g dst cs sub dst1 g1] l res
    have d: "dst1 = dst @ fst (NewRules g (cs @ [base]))"
      and g1: "g1 = snd (NewRules g (cs @ [base]))" by simp_all
    from Cons.prems f False l res obtain rule1 where
      "Generate_fields g1 dst1 rule1 (map (\<lambda>(cs, base). (cs, lower_conditional base)) fs)
         = (Inr rule', dst', g')"
      by (simp add: Let_def)
    from Cons.IH[OF this] d g1 f False show ?thesis
      by (simp add: field_bases_def NewRules_append NewRules_Cons NewRules_Cons_snd
          del: NewRules.simps(2))
  qed
qed

lemma Generate_rule_NewRules:
  assumes "Generate_rule modelled_conditionals g dst policyRule = (Inr rule, dst', g')"
  shows "dst' = dst @ fst (NewRules g (rule_bases policyRule))
     \<and> g' = snd (NewRules g (rule_bases policyRule))"
  using assms
    Generate_fields_NewRules[of g dst _ "[(And policyRule, ''and''), (Or policyRule, ''or''),
        (Not' policyRule, ''not''), (Nor policyRule, ''nor'')]" rule dst' g']
  by (simp add: Generate_rule_def modelled_conditionals_def rule_bases_def Let_def
      del: Generate_fields.simps)

lemma Generate_loop_NewRules:
  assumes "\<forall>rs r. set rs \<subseteq> set (Add rs r)"
  shows "Generate_loop Add modelled_conditionals g rules prs = (Inr rules', g') \<Longrightarrow>
     g' = snd (NewRules g (concat (map rule_bases prs)))
     \<and> set rules \<subseteq> set rules'
     \<and> set (fst (NewRules g (concat (map rule_bases prs)))) \<subseteq> set rules'"
proof (induction prs arbitrary: g rules)
  case Nil
  then show ?case by simp
next
  case (Cons pr prs)
  obtain res dst1 g1 where r: "Generate_rule modelled_conditionals g rules pr = (res, dst1, g1)"
    by (cases "Generate_rule modelled_conditionals g rules pr")
  with Cons.prems obtain rule where res: "res = Inr rule"
    by (cases res) simp_all
  from Generate_rule_NewRules[of g rules pr rule dst1 g1] r res
  have d: "dst1 = rules @ fst (NewRules g (rule_bases pr))"
    and g1: "g1 = snd (NewRules g (rule_bases pr))" by simp_all
  from Cons.prems r res have
    "Generate_loop Add modelled_conditionals g1 (Add dst1 rule) prs = (Inr rules', g')"
    by simp
  from Cons.IH[OF this] have
    a: "g' = snd (NewRules g1 (concat (map rule_bases prs)))"
    and b: "set (Add dst1 rule) \<subseteq> set rules'"
    and c: "set (fst (NewRules g1 (concat (map rule_bases prs)))) \<subseteq> set rules'"
    by simp_all
  from assms have "set dst1 \<subseteq> set (Add dst1 rule)" by blast
  with b have "set dst1 \<subseteq> set rules'" by blast
  with a c d g1 show ?case by (simp add: NewRules_append del: NewRules.simps(2))
qed

lemma SetLocs_names:
  "map (Name \<circ> Head) (SetLocs String i rs) = map (Name \<circ> Head) rs"
  by (induction rs arbitrary: i) simp_all

lemma Generate_NewRules:
  fixes g :: "('w::len, 'c) Generator"
  assumes "\<forall>rs r. set rs \<subseteq> set (Add rs r)"
    and "Generate MustParseRule Add String modelled_conditionals g policy = (Inr module, g')"
  shows "g' = snd (NewRules g (policy_bases policy))
     \<and> set (map (Name \<circ> Head) (fst (NewRules g (policy_bases policy))))
          \<subseteq> set (map (Name \<circ> Head) (Module.Rules module))"
proof -
  from Generate_Inr[OF assms(2)] obtain rules where
    loop: "Generate_loop Add modelled_conditionals g
            (Add (Add [] (MustParseRule ''default allow = false''))
               (MustParseRule ''default deny = false''))
            (parser_Policy.Rules policy) = (Inr rules, g')"
    and m: "Module.Rules module = SetLocs String 1 (sort_key (\<lambda>r. length (Args (Head r))) rules)"
    by blast
  from Generate_loop_NewRules[OF assms(1) loop]
  have g': "g' = snd (NewRules g (policy_bases policy))"
    and sub: "set (fst (NewRules g (policy_bases policy))) \<subseteq> set rules"
    by (simp_all add: policy_bases_def)
  have "set (map (Name \<circ> Head) (Module.Rules module)) = set (map (Name \<circ> Head) rules)"
    by (simp only: m SetLocs_names set_map set_sort)
  with g' sub show ?thesis by auto
qed

lemma counter_NewRules_replicate:
  "counter (snd (NewRules g (replicate n name))) name = counter g name + of_nat n"
  by (induction n arbitrary: g)
    (simp_all add: counter_NewRule NewRules_Cons_snd ac_simps del: NewRules.simps(2))

text \<open>
  C6 (amended). A call of \<open>NewRule\<close> with a base returns a rule named by the base, an
  underscore and the value the base's counter has at the call, printed as a signed
  number; afterwards that counter is one more (a machine \<^verbatim>\<open>int\<close> of \<open>w\<close> bits, which wraps
  around) and no other counter or criterion has changed. Among at most \<open>2 ^ w\<close> calls
  made on one generator no two return the same name. A \<open>Generate\<close> call whose
  sub-generators name their rules by \<open>NewRule\<close> leaves the generator as the \<open>NewRule\<close>
  calls for the policy's criteria and combinators leave it; when these are at most
  \<open>2 ^ w\<close> calls their names are pairwise distinct, two criteria of the same kind
  included, and each is the name of a rule of the module.
\<close>

theorem NewRule_unique_names:
  fixes g :: "('w::len, 'c) Generator"
  shows "Name (Head (fst (NewRule g name))) = name @ ''_'' @ Itoa (sint (counter g name))
     \<and> counter (snd (NewRule g name)) name = counter g name + 1
     \<and> (\<forall>other. other \<noteq> name \<longrightarrow> counter (snd (NewRule g name)) other = counter g other)
     \<and> criteria (snd (NewRule g name)) = criteria g
     \<and> (length names \<le> 2 ^ LENGTH('w) \<longrightarrow>
          distinct (map (Name \<circ> Head) (fst (NewRules g names))))
     \<and> ((\<forall>rs r. set rs \<subseteq> set (Add rs r))
          \<and> Generate MustParseRule Add String modelled_conditionals g policy = (Inr module, g')
          \<and> length (policy_bases policy) \<le> 2 ^ LENGTH('w) \<longrightarrow>
          g' = snd (NewRules g (policy_bases policy))
          \<and> distinct (map (Name \<circ> Head) (fst (NewRules g (policy_bases policy))))
          \<and> set (map (Name \<circ> Head) (fst (NewRules g (policy_bases policy))))
              \<subseteq> set (map (Name \<circ> Head) (Module.Rules module)))"
proof (intro conjI impI allI)
  show "Name (Head (fst (NewRule g name))) = name @ ''_'' @ Itoa (sint (counter g name))"
    by (simp add: Name_NewRule Sprintf_s_d_def)
  show "counter (snd (NewRule g name)) name = counter g name + 1"
    by (simp add: counter_NewRule)
  show "counter (snd (NewRule g name)) other = counter g other" if "other \<noteq> name" for other
    using that by (simp add: counter_NewRule)
  show "criteria (snd (NewRule g name)) = criteria g"
    by (simp add: NewRule_def Let_def)
  show "distinct (map (Name \<circ> Head) (fst (NewRules g names)))"
    if "length names \<le> 2 ^ LENGTH('w)"
    using that by (rule NewRules_distinct)
next
  assume a: "(\<forall>rs r. set rs \<subseteq> set (Add rs r))
      \<and> Generate MustParseRule Add String modelled_conditionals g policy = (Inr module, g')
      \<and> length (policy_bases policy) \<le> 2 ^ LENGTH('w)"
  then have ext: "\<forall>rs r. set rs \<subseteq> set (Add rs r)"
    and run: "Generate MustParseRule Add String modelled_conditionals g policy = (Inr module, g')"
    and len: "length (policy_bases policy) \<le> 2 ^ LENGTH('w)"
    by blast+
  from Generate_NewRules [OF ext run]
  show "g' = snd (NewRules g (policy_bases policy))"
    and "set (map (Name \<circ> Head) (fst (NewRules g (policy_bases policy))))
          \<subseteq> set (map (Name \<circ> Head) (Module.Rules module))"
    by blast+
  from len show "distinct (map (Name \<circ> Head) (fst (NewRules g (policy_bases policy))))"
    by (rule NewRules_distinct)
qed

text \<open>
  C6 as stated fails: on a 64-bit platform the call of \<open>NewRule\<close> made after \<open>2 ^ 64\<close> calls
  with the same base returns the name that the first call returned.
\<close>

theorem NewRule_name_repeats:
  "Name (Head (fst (NewRule (snd (NewRules (New [] :: (64, unit) Generator)
                                    (replicate (2 ^ 64) ''and''))) ''and'')))
     = ''and_0''
   \<and> Name (Head (fst (NewRule (New [] :: (64, unit) Generator) ''and''))) = ''and_0''"
proof -
  let ?g = "New [] :: (64, unit) Generator"
  have c0: "counter ?g ''and'' = 0" by (simp add: counter_def New_def)
  have "(of_nat (2 ^ 64) :: 64 word) = 0"
    using of_nat_2p [where 'a = 64] by simp
  with c0 have "counter (snd (NewRules ?g (replicate (2 ^ 64) ''and''))) ''and'' = 0"
    by (simp only: counter_NewRules_replicate) simp
  then have "Name (Head (fst (NewRule (snd (NewRules ?g (replicate (2 ^ 64) ''and''))) ''and'')))
      = Sprintf_s_d ''and'' (sint (0 :: 64 word))"
    by (simp only: Name_NewRule)
  moreover from c0 have "Name (Head (fst (NewRule ?g ''and''))) = Sprintf_s_d ''and'' (sint (0 :: 64 word))"
    by (simp only: Name_NewRule)
  moreover have "Sprintf_s_d ''and'' (sint (0 :: 64 word)) = ''and_0''"
    by (simp add: Sprintf_s_d_def Itoa_def digit_def decimal.simps)
  ultimately show ?thesis by simp
qed

theorem NewRule_unique_names_witness:
  "map (Name \<circ> Head) (fst (NewRules (New [] :: (64, unit) Generator) [''and'', ''or'', ''and'']))
     = [''and_0'', ''or_0'', ''and_1'']
   \<and> distinct (map (Name \<circ> Head) (fst (NewRules (New [] :: (64, unit) Generator) [''and'', ''or'', ''and''])))
   \<and> counter (snd (NewRule (New [] :: (64, unit) Generator) ''or'')) ''and'' = 0
   \<and> counter (snd (NewRule (New [] :: (64, unit) Generator) ''or'')) ''or'' = 1
   \<and> (\<exists>module g'.
         Generate sample_MustParseRule sample_Add sample_String modelled_conditionals
           sample_registry sample_repeated = (Inr module, g')
         \<and> map (Name \<circ> Head) (Module.Rules module)
             = [''allow'', ''deny'', ''domain_0'', ''domain_1'', ''and_0'', ''email_0'',
                ''or_0'', ''allow'', ''domain_2'', ''and_1'', ''deny'']
         \<and> g' = snd (NewRules sample_registry (policy_bases sample_repeated))
         \<and> distinct (map (Name \<circ> Head)
               (fst (NewRules sample_registry (policy_bases sample_repeated))))
         \<and> set (map (Name \<circ> Head) (fst (NewRules sample_registry (policy_bases sample_repeated))))
             \<subseteq> set (map (Name \<circ> Head) (Module.Rules module)))
   \<and> policy_bases sample_repeated
       = [''domain'', ''domain'', ''and'', ''email'', ''or'', ''domain'', ''and'']"
proof -
  let ?g = "New [] :: (64, unit) Generator"
  have l: "length [''and'', ''or'', ''and''] \<le> (2::nat) ^ LENGTH(64)" by simp
  have n: "''and'' \<noteq> ''or''" by simp
  have c: "counter ?g ''and'' = 0" "counter ?g ''or'' = 0"
    by (simp_all add: counter_def New_def)
  have m: "map (Name \<circ> Head) (fst (NewRules ?g [''and'', ''or'', ''and'']))
     = [''and_0'', ''or_0'', ''and_1'']"
    by (simp add: NewRule_def New_def counter_def Sprintf_s_d_def Itoa_def digit_def decimal.simps)
  have bases: "policy_bases sample_repeated
       = [''domain'', ''domain'', ''and'', ''email'', ''or'', ''domain'', ''and'']"
    by (simp add: policy_bases_def rule_bases_def field_bases_def sample_repeated_def)
  then have len: "length (policy_bases sample_repeated) \<le> (2::nat) ^ LENGTH(64)" by simp
  have ext: "\<forall>rs r. set rs \<subseteq> set (sample_Add rs r)"
    by (auto simp: sample_Add_def)
  have "\<exists>module g'.
         Generate sample_MustParseRule sample_Add sample_String modelled_conditionals
           sample_registry sample_repeated = (Inr module, g')
         \<and> map (Name \<circ> Head) (Module.Rules module)
             = [''allow'', ''deny'', ''domain_0'', ''domain_1'', ''and_0'', ''email_0'',
                ''or_0'', ''allow'', ''domain_2'', ''and_1'', ''deny'']"
    by (simp add: Generate_def sample_MustParseRule_def sample_Add_def sample_String_def
        modelled_conditionals_def lower_conditional_def sample_registry_def sample_repeated_def
        Generate_rule_def GetCriterion_def WithCriterion_def
        NewRule_def New_def counter_def Sprintf_s_d_def Itoa_def digit_def decimal.simps
        Assign_Expr_def Let_def)
  then obtain module g' where
    run: "Generate sample_MustParseRule sample_Add sample_String modelled_conditionals
           sample_registry sample_repeated = (Inr module, g')"
    and rules: "map (Name \<circ> Head) (Module.Rules module)
             = [''allow'', ''deny'', ''domain_0'', ''domain_1'', ''and_0'', ''email_0'',
                ''or_0'', ''allow'', ''domain_2'', ''and_1'', ''deny'']"
    by (elim exE conjE)
  note first = NewRule_unique_names [where g = "?g" and name = "''or''"
      and names = "[''and'', ''or'', ''and'']" and Add = sample_Add
      and MustParseRule = sample_MustParseRule and String = sample_String
      and policy = sample_repeated and module = module and g' = g']
  note second = NewRule_unique_names [where g = sample_registry and name = "''or''"
      and names = "[]" and Add = sample_Add
      and MustParseRule = sample_MustParseRule and String = sample_String
      and policy = sample_repeated and module = module and g' = g']
  from first l n c have 1:
    "distinct (map (Name \<circ> Head) (fst (NewRules ?g [''and'', ''or'', ''and''])))"
    "counter (snd (NewRule ?g ''or'')) ''and'' = 0"
    "counter (snd (NewRule ?g ''or'')) ''or'' = 1"
    by simp_all
  from second ext run len have 2:
    "g' = snd (NewRules sample_registry (policy_bases sample_repeated))"
    "distinct (map (Name \<circ> Head) (fst (NewRules sample_registry (policy_bases sample_repeated))))"
    "set (map (Name \<circ> Head) (fst (NewRules sample_registry (policy_bases sample_repeated))))
       \<subseteq> set (map (Name \<circ> Head) (Module.Rules module))"
    by blast+
  show ?thesis
    by (intro conjI exI [of _ module] exI [of _ g'] m 1 run rules 2 bases)
qed

end
